theory Spec2Isabelle
  imports Main
begin

section \<open>Data model of mediasync.js\<close>

text \<open>
  The objects the script reads. Only the properties the script touches are fields.
  A property that may be missing (\<open>undefined\<close> or \<open>null\<close>) is an \<open>option\<close>.
  Field names carry a prefix where two objects have a property of the same name.
\<close>

type_synonym offlineAction = string

record user =
  user_Id :: string

record serverInfo =
  server_Id :: string
  Users :: "user list option"

record mediaStream =
  stream_Type :: string
  stream_Index :: int
  stream_Path :: "string option"

record mediaSource =
  MediaStreams :: "mediaStream list"

record libraryItem =
  item_Id :: string
  ServerId :: string
  ImageTags :: "(string \<times> string) list option"
  SeriesId :: "string option"
  SeriesPrimaryImageTag :: "string option"
  AlbumId :: "string option"
  AlbumPrimaryImageTag :: "string option"
  MediaSources :: "mediaSource list"

record additionalFile =
  file_Type :: string
  file_Index :: int
  file_Name :: string

record jobItem =
  Item :: libraryItem
  OriginalFileName :: string
  AdditionalFiles :: "additionalFile list"
  SyncJobItemId :: string

record localItem =
  LocalPath :: string
  UserIdsWithAccess :: "string list"

record syncDataRequest =
  TargetId :: string
  LocalItemIds :: "string list"
  OfflineUserIds :: "string list"

text \<open>
  \<open>ItemUserAccess\<close> is an object used as a dictionary; \<open>for (var id in ...)\<close> walks its keys
  in insertion order, so it is an association list.
\<close>

record syncDataResult =
  ItemIdsToRemove :: "string list"
  ItemUserAccess :: "(string \<times> string list) list"

text \<open>
  The API client: the synchronous methods the script calls are fields; the methods that
  return a promise are external calls (below).
\<close>

record apiClient =
  deviceId :: string
  accessToken :: string
  getUrl :: "string \<Rightarrow> (string \<times> string) list \<Rightarrow> string"
  getImageUrl :: "string \<Rightarrow> (string \<times> string) list \<Rightarrow> string"

text \<open>JavaScript truthiness of a value that is a string, \<open>undefined\<close> or \<open>null\<close>.\<close>

fun truthy :: "string option \<Rightarrow> bool" where
  "truthy None = False"
| "truthy (Some s) = (s \<noteq> [])"

text \<open>\<open>Array.prototype.join\<close> on an array of strings.\<close>

fun join :: "string \<Rightarrow> string list \<Rightarrow> string" where
  "join sep [] = []"
| "join sep [x] = x"
| "join sep (x # y # ys) = x @ sep @ join sep (y # ys)"

section \<open>Promises, callbacks and the event loop\<close>

text \<open>
  The script is written in continuation style over two collaborators that are not part
  of it: \<open>DeferredBuilder.Deferred()\<close> (a jQuery-style deferred: it is settled once, later
  calls of \<open>resolve\<close> or \<open>reject\<close> do nothing, the callbacks run synchronously inside
  \<open>resolve\<close> or \<open>reject\<close>, and an exception thrown by a callback is not caught) and the
  asynchronous operations of \<open>LocalAssetManager\<close>, \<open>apiClient\<close> and \<open>require\<close>, each of which
  completes in a later turn of the event loop.

  The state the script shares is the status of every deferred it has created and, for
  the statements below, a trace of what happened: the log lines, the operations started
  and completed, the deferreds settled and the exceptions nothing caught.
\<close>

datatype status = Pending | Resolved | Rejected

datatype error = ReferenceError string | TypeError string

datatype extcall =
    Require
  | LAM_getOfflineActions string
  | Api_reportOfflineActions "offlineAction list"
  | LAM_deleteOfflineActions "offlineAction list"
  | LAM_getServerItemIds string
  | Api_syncData syncDataRequest
  | LAM_removeLocalItem string string
  | Api_getReadySyncItems string
  | LAM_createLocalItem libraryItem serverInfo string
  | LAM_downloadFile string string
  | LAM_addOrUpdateLocalItem localItem
  | LAM_hasImage string string string
  | LAM_downloadImage string string string string
  | LAM_downloadSubtitles string localItem mediaStream
  | Api_reportSyncJobItemTransferred string
  | LAM_getLocalItem string string

datatype reply =
    R_fail
  | R_unit
  | R_actions (actions_of: "offlineAction list")
  | R_ids (ids_of: "string list")
  | R_result (result_of: syncDataResult)
  | R_jobs (jobs_of: "jobItem list")
  | R_local (local_of: localItem)
  | R_flag (flag_of: bool)
  | R_path (path_of: string)

datatype event =
    Log string
  | LogError string
  | Call extcall
  | Completed extcall reply
  | Settled nat status
  | Assigned_Path mediaStream string
  | Uncaught error

record store =
  statuses :: "status list"
  trace :: "event list"

text \<open>
  A task is a piece of synchronous code: it changes the store, leaves the asynchronous
  operations it has started (each with the callback that awaits its reply), and may throw.
\<close>

datatype task =
  Task (run: "store \<Rightarrow> store \<times> (extcall \<times> (reply \<Rightarrow> task)) list \<times> error option")

text \<open>
  A deferred, together with the two callbacks that the caller of the function that
  created it attaches to the returned promise (\<open>.done(...).fail(...)\<close>). In the source
  the callbacks are attached when the function has returned the promise, and a callback
  attached to a promise that is already settled runs at once. Between the creation of a
  deferred and the return of its promise the functions of the script run nothing after a
  \<open>resolve\<close> or \<open>reject\<close> of that deferred but \<open>return\<close>, so the callbacks run at the same point
  of the trace when they are known from the creation on, as they are here.
\<close>

record deferred =
  did :: nat
  on_done :: task
  on_fail :: task

definition skip :: task where
  "skip = Task (\<lambda>s. (s, [], None))"

definition throw :: "error \<Rightarrow> task" where
  "throw e = Task (\<lambda>s. (s, [], Some e))"

text \<open>Statement sequencing: an exception skips the rest.\<close>

definition seq :: "task \<Rightarrow> task \<Rightarrow> task" where
  "seq t1 t2 = Task (\<lambda>s. case run t1 s of
       (s1, ps1, Some e) \<Rightarrow> (s1, ps1, Some e)
     | (s1, ps1, None) \<Rightarrow> (case run t2 s1 of (s2, ps2, r) \<Rightarrow> (s2, ps1 @ ps2, r)))"

definition emit :: "event \<Rightarrow> task" where
  "emit ev = Task (\<lambda>s. (s\<lparr>trace := trace s @ [ev]\<rparr>, [], None))"

definition Logger_log :: "string \<Rightarrow> task" where
  "Logger_log msg = emit (Log msg)"

text \<open>Starting an asynchronous operation; \<open>k\<close> runs in the turn that delivers its reply.\<close>

definition await :: "extcall \<Rightarrow> (reply \<Rightarrow> task) \<Rightarrow> task" where
  "await c k = Task (\<lambda>s. (s\<lparr>trace := trace s @ [Call c]\<rparr>, [(c, k)], None))"

text \<open>\<open>DeferredBuilder.Deferred()\<close>: a fresh pending deferred.\<close>

definition Deferred :: "task \<Rightarrow> task \<Rightarrow> (deferred \<Rightarrow> task) \<Rightarrow> task" where
  "Deferred k_done k_fail body = Task (\<lambda>s.
     run (body \<lparr>did = length (statuses s), on_done = k_done, on_fail = k_fail\<rparr>)
         (s\<lparr>statuses := statuses s @ [Pending]\<rparr>))"

text \<open>Settling a deferred: only a pending one changes and runs its callback.\<close>

definition settle :: "status \<Rightarrow> nat \<Rightarrow> task \<Rightarrow> task" where
  "settle st d callback = Task (\<lambda>s.
     if d < length (statuses s) \<and> statuses s ! d = Pending
     then run callback (s\<lparr>statuses := (statuses s)[d := st], trace := trace s @ [Settled d st]\<rparr>)
     else (s, [], None))"

definition resolve :: "deferred \<Rightarrow> task" where
  "resolve deferred = settle Resolved (did deferred) (on_done deferred)"

definition reject :: "deferred \<Rightarrow> task" where
  "reject deferred = settle Rejected (did deferred) (on_fail deferred)"

text \<open>
  \<open>p.done(f).fail(g)\<close> on the promise of an asynchronous operation \<open>c\<close> of a collaborator.
\<close>

definition promise :: "extcall \<Rightarrow> (reply \<Rightarrow> task) \<Rightarrow> task \<Rightarrow> task" where
  "promise c k_done k_fail = await c (\<lambda>r. if r = R_fail then k_fail else k_done r)"

definition require :: "task \<Rightarrow> task" where
  "require callback = await Require (\<lambda>r. callback)"

subsection \<open>The collaborators' asynchronous operations\<close>

definition LocalAssetManager_getOfflineActions ::
  "string \<Rightarrow> (offlineAction list \<Rightarrow> task) \<Rightarrow> task \<Rightarrow> task" where
  "LocalAssetManager_getOfflineActions serverId k_done k_fail =
     promise (LAM_getOfflineActions serverId) (\<lambda>r. k_done (actions_of r)) k_fail"

definition apiClient_reportOfflineActions :: "offlineAction list \<Rightarrow> task \<Rightarrow> task \<Rightarrow> task" where
  "apiClient_reportOfflineActions actions k_done k_fail =
     promise (Api_reportOfflineActions actions) (\<lambda>r. k_done) k_fail"

definition LocalAssetManager_deleteOfflineActions ::
  "offlineAction list \<Rightarrow> task \<Rightarrow> task \<Rightarrow> task" where
  "LocalAssetManager_deleteOfflineActions actions k_done k_fail =
     promise (LAM_deleteOfflineActions actions) (\<lambda>r. k_done) k_fail"

definition LocalAssetManager_getServerItemIds ::
  "string \<Rightarrow> (string list \<Rightarrow> task) \<Rightarrow> task \<Rightarrow> task" where
  "LocalAssetManager_getServerItemIds serverId k_done k_fail =
     promise (LAM_getServerItemIds serverId) (\<lambda>r. k_done (ids_of r)) k_fail"

definition apiClient_syncData ::
  "syncDataRequest \<Rightarrow> (syncDataResult \<Rightarrow> task) \<Rightarrow> task \<Rightarrow> task" where
  "apiClient_syncData request k_done k_fail =
     promise (Api_syncData request) (\<lambda>r. k_done (result_of r)) k_fail"

definition LocalAssetManager_removeLocalItem :: "string \<Rightarrow> string \<Rightarrow> task \<Rightarrow> task \<Rightarrow> task" where
  "LocalAssetManager_removeLocalItem itemId serverId k_done k_fail =
     promise (LAM_removeLocalItem itemId serverId) (\<lambda>r. k_done) k_fail"

definition apiClient_getReadySyncItems ::
  "string \<Rightarrow> (jobItem list \<Rightarrow> task) \<Rightarrow> task \<Rightarrow> task" where
  "apiClient_getReadySyncItems device k_done k_fail =
     promise (Api_getReadySyncItems device) (\<lambda>r. k_done (jobs_of r)) k_fail"

definition LocalAssetManager_createLocalItem ::
  "libraryItem \<Rightarrow> serverInfo \<Rightarrow> string \<Rightarrow> (localItem \<Rightarrow> task) \<Rightarrow> task \<Rightarrow> task" where
  "LocalAssetManager_createLocalItem libraryItem serverInfo originalFileName k_done k_fail =
     promise (LAM_createLocalItem libraryItem serverInfo originalFileName)
       (\<lambda>r. k_done (local_of r)) k_fail"

definition LocalAssetManager_downloadFile :: "string \<Rightarrow> string \<Rightarrow> task \<Rightarrow> task \<Rightarrow> task" where
  "LocalAssetManager_downloadFile url localPath k_done k_fail =
     promise (LAM_downloadFile url localPath) (\<lambda>r. k_done) k_fail"

definition LocalAssetManager_addOrUpdateLocalItem :: "localItem \<Rightarrow> task \<Rightarrow> task \<Rightarrow> task" where
  "LocalAssetManager_addOrUpdateLocalItem localItem k_done k_fail =
     promise (LAM_addOrUpdateLocalItem localItem) (\<lambda>r. k_done) k_fail"

definition LocalAssetManager_hasImage ::
  "string \<Rightarrow> string \<Rightarrow> string \<Rightarrow> (bool \<Rightarrow> task) \<Rightarrow> task \<Rightarrow> task" where
  "LocalAssetManager_hasImage serverId itemId imageTag k_done k_fail =
     promise (LAM_hasImage serverId itemId imageTag) (\<lambda>r. k_done (flag_of r)) k_fail"

definition LocalAssetManager_downloadImage ::
  "string \<Rightarrow> string \<Rightarrow> string \<Rightarrow> string \<Rightarrow> task \<Rightarrow> task \<Rightarrow> task" where
  "LocalAssetManager_downloadImage imageUrl serverId itemId imageTag k_done k_fail =
     promise (LAM_downloadImage imageUrl serverId itemId imageTag) (\<lambda>r. k_done) k_fail"

definition LocalAssetManager_downloadSubtitles ::
  "string \<Rightarrow> localItem \<Rightarrow> mediaStream \<Rightarrow> (string \<Rightarrow> task) \<Rightarrow> task \<Rightarrow> task" where
  "LocalAssetManager_downloadSubtitles url localItem subtitleStream k_done k_fail =
     promise (LAM_downloadSubtitles url localItem subtitleStream) (\<lambda>r. k_done (path_of r)) k_fail"

definition apiClient_reportSyncJobItemTransferred :: "string \<Rightarrow> task \<Rightarrow> task \<Rightarrow> task" where
  "apiClient_reportSyncJobItemTransferred syncJobItemId k_done k_fail =
     promise (Api_reportSyncJobItemTransferred syncJobItemId) (\<lambda>r. k_done) k_fail"

definition LocalAssetManager_getLocalItem ::
  "string \<Rightarrow> string \<Rightarrow> (localItem \<Rightarrow> task) \<Rightarrow> task \<Rightarrow> task" where
  "LocalAssetManager_getLocalItem itemId serverId k_done k_fail =
     promise (LAM_getLocalItem itemId serverId) (\<lambda>r. k_done (local_of r)) k_fail"

text \<open>
  The replies an operation can deliver: \<open>require\<close> only calls back; every other operation
  fails or delivers a value of its own kind.
\<close>

fun accepts :: "extcall \<Rightarrow> reply \<Rightarrow> bool" where
  "accepts Require r = (r = R_unit)"
| "accepts (LAM_getOfflineActions _) r = (case r of R_fail \<Rightarrow> True | R_actions _ \<Rightarrow> True | _ \<Rightarrow> False)"
| "accepts (LAM_getServerItemIds _) r = (case r of R_fail \<Rightarrow> True | R_ids _ \<Rightarrow> True | _ \<Rightarrow> False)"
| "accepts (Api_syncData _) r = (case r of R_fail \<Rightarrow> True | R_result _ \<Rightarrow> True | _ \<Rightarrow> False)"
| "accepts (Api_getReadySyncItems _) r = (case r of R_fail \<Rightarrow> True | R_jobs _ \<Rightarrow> True | _ \<Rightarrow> False)"
| "accepts (LAM_createLocalItem _ _ _) r = (case r of R_fail \<Rightarrow> True | R_local _ \<Rightarrow> True | _ \<Rightarrow> False)"
| "accepts (LAM_getLocalItem _ _) r = (case r of R_fail \<Rightarrow> True | R_local _ \<Rightarrow> True | _ \<Rightarrow> False)"
| "accepts (LAM_hasImage _ _ _) r = (case r of R_fail \<Rightarrow> True | R_flag _ \<Rightarrow> True | _ \<Rightarrow> False)"
| "accepts (LAM_downloadSubtitles _ _ _) r = (case r of R_fail \<Rightarrow> True | R_path _ \<Rightarrow> True | _ \<Rightarrow> False)"
| "accepts _ r = (case r of R_fail \<Rightarrow> True | R_unit \<Rightarrow> True | _ \<Rightarrow> False)"

subsection \<open>The event loop\<close>

text \<open>
  Between turns the machine holds the store and the operations in flight. A turn delivers
  the reply of one of them and runs its callback to the end; an exception that nothing
  catches ends the turn and is noted in the trace.
\<close>

record machine =
  m_store :: store
  m_pending :: "(extcall \<times> (reply \<Rightarrow> task)) list"

definition note_uncaught :: "error option \<Rightarrow> store \<Rightarrow> store" where
  "note_uncaught e s = (case e of None \<Rightarrow> s | Some x \<Rightarrow> s\<lparr>trace := trace s @ [Uncaught x]\<rparr>)"

definition turn :: "task \<Rightarrow> store \<Rightarrow> (extcall \<times> (reply \<Rightarrow> task)) list \<Rightarrow> machine" where
  "turn t s ps = (case run t s of (s', new, e) \<Rightarrow>
     \<lparr>m_store = note_uncaught e s', m_pending = ps @ new\<rparr>)"

definition start :: "task \<Rightarrow> machine" where
  "start t = turn t \<lparr>statuses = [], trace = []\<rparr> []"

definition complete :: "nat \<Rightarrow> reply \<Rightarrow> machine \<Rightarrow> machine option" where
  "complete i r m =
     (if i < length (m_pending m) \<and> accepts (fst (m_pending m ! i)) r
      then Some (turn (snd (m_pending m ! i) r)
                   ((m_store m)\<lparr>trace := trace (m_store m) @ [Completed (fst (m_pending m ! i)) r]\<rparr>)
                   (take i (m_pending m) @ drop (Suc i) (m_pending m)))
      else None)"

text \<open>
  A run of the environment: which operation in flight completes next, and with what reply.
  \<open>None\<close> when the list asks for something that cannot happen.
\<close>

fun exec :: "(nat \<times> reply) list \<Rightarrow> machine \<Rightarrow> machine option" where
  "exec [] m = Some m"
| "exec ((i, r) # cs) m = (case complete i r m of None \<Rightarrow> None | Some m' \<Rightarrow> exec cs m')"

text \<open>What can be seen of a machine: the deferreds, the trace, the operations in flight.\<close>

definition snapshot :: "machine \<Rightarrow> status list \<times> event list \<times> extcall list" where
  "snapshot m = (statuses (m_store m), trace (m_store m), map fst (m_pending m))"

definition calls :: "event list \<Rightarrow> extcall list" where
  "calls tr = concat (map (\<lambda>ev. case ev of Call c \<Rightarrow> [c] | _ \<Rightarrow> []) tr)"

section \<open>The global scope\<close>

text \<open>
  The script reads five identifiers that no enclosing function declares or receives:
  \<open>item\<close> (getNextImage), \<open>logger\<close> (getSubtitles), \<open>deferred\<close> and \<open>file\<close> (getNextSubtitle)
  and \<open>serverId\<close> (syncUserAccessForItem). JavaScript looks them up in the global scope,
  which is not part of the script, and throws a ReferenceError when they are not there.
  The global scope is a parameter; \<open>no_globals\<close> is the script on its own. A global \<open>item\<close>
  is taken to be a job item (the script reads its \<open>Item\<close> property), a global \<open>logger\<close> to
  have an \<open>Error\<close> method that logs, and a global \<open>deferred\<close> to be a deferred with the
  callbacks of whoever made it.
\<close>

record globals =
  global_item :: "jobItem option"
  global_logger :: bool
  global_deferred :: "deferred option"
  global_file :: "additionalFile option"
  global_serverId :: "string option"

definition no_globals :: globals where
  "no_globals = \<lparr>global_item = None, global_logger = False, global_deferred = None,
     global_file = None, global_serverId = None\<rparr>"

definition logger_Error :: "globals \<Rightarrow> string \<Rightarrow> task" where
  "logger_Error g msg =
     (if global_logger g then emit (LogError msg) else throw (ReferenceError ''logger''))"

section \<open>The script\<close>

text \<open>
  Each function of the script that returns a promise takes, as its last two arguments,
  the callbacks its caller attaches with \<open>.done\<close> and \<open>.fail\<close>; a function that is handed a
  deferred (\<open>removeNextLocalItem\<close>, \<open>afterSyncData\<close>, ...) takes it as in the source. The
  definitions follow the source from the bottom up; the source names are kept.
  \<open>getOnFail(deferred)\<close> returns the function that rejects \<open>deferred\<close>.
\<close>

definition getOnFail :: "deferred \<Rightarrow> task" where
  "getOnFail deferred = reject deferred"

subsection \<open>reportOfflineActions\<close>

definition reportOfflineActions :: "apiClient \<Rightarrow> serverInfo \<Rightarrow> task \<Rightarrow> task \<Rightarrow> task" where
  "reportOfflineActions apiClient serverInfo k_done k_fail =
     seq (Logger_log ''Begin reportOfflineActions'')
     (Deferred k_done k_fail (\<lambda>deferred.
        require
          (LocalAssetManager_getOfflineActions (server_Id serverInfo)
             (\<lambda>actions.
                if length actions = 0 then resolve deferred
                else apiClient_reportOfflineActions actions
                       (LocalAssetManager_deleteOfflineActions actions
                          (resolve deferred)
                          (getOnFail deferred))
                       (getOnFail deferred))
             (getOnFail deferred))))"

subsection \<open>Removal of local items\<close>

definition removeLocalItem :: "string \<Rightarrow> string \<Rightarrow> task \<Rightarrow> task \<Rightarrow> task" where
  "removeLocalItem itemId serverId k_done k_fail =
     seq (Logger_log ''Begin removeLocalItem'')
     (Deferred k_done k_fail (\<lambda>deferred.
        require
          (LocalAssetManager_removeLocalItem itemId serverId
             (resolve deferred)
             (getOnFail deferred))))"

function removeNextLocalItem :: "string list \<Rightarrow> nat \<Rightarrow> string \<Rightarrow> deferred \<Rightarrow> task" where
  "removeNextLocalItem itemIdsToRemove index serverId deferred =
     (if index \<ge> length itemIdsToRemove then resolve deferred
      else removeLocalItem (itemIdsToRemove ! index) serverId
             (removeNextLocalItem itemIdsToRemove (index + 1) serverId deferred)
             (removeNextLocalItem itemIdsToRemove (index + 1) serverId deferred))"
  by pat_completeness auto
termination
  by (relation "measure (\<lambda>(ids, index, serverId, deferred). length ids - index)") auto

declare removeNextLocalItem.simps [simp del]

definition removeLocalItems :: "syncDataResult \<Rightarrow> string \<Rightarrow> task \<Rightarrow> task \<Rightarrow> task" where
  "removeLocalItems syncDataResult serverId k_done k_fail =
     seq (Logger_log ''Begin removeLocalItems'')
     (Deferred k_done k_fail (\<lambda>deferred.
        removeNextLocalItem (ItemIdsToRemove syncDataResult) 0 serverId deferred))"

subsection \<open>Propagation of user access\<close>

text \<open>
  \<open>syncUserAccessForItem(itemId, syncDataResult)\<close> passes \<open>serverId\<close> to
  \<open>LocalAssetManager.getLocalItem\<close>; \<open>serverId\<close> is not one of its parameters.
\<close>

definition syncUserAccessForItem ::
  "globals \<Rightarrow> string \<Rightarrow> syncDataResult \<Rightarrow> task \<Rightarrow> task \<Rightarrow> task" where
  "syncUserAccessForItem g itemId syncDataResult k_done k_fail =
     seq (Logger_log ''Begin syncUserAccessForItem'')
     (Deferred k_done k_fail (\<lambda>deferred.
        require
          (case global_serverId g of
             None \<Rightarrow> throw (ReferenceError ''serverId'')
           | Some serverId \<Rightarrow>
               LocalAssetManager_getLocalItem itemId serverId
                 (\<lambda>localItem.
                    case map_of (ItemUserAccess syncDataResult) itemId of
                      None \<Rightarrow> throw (TypeError ''userIdsWithAccess is undefined'')
                    | Some userIdsWithAccess \<Rightarrow>
                        if join '','' userIdsWithAccess = join '','' (UserIdsWithAccess localItem)
                        then resolve deferred
                        else LocalAssetManager_addOrUpdateLocalItem
                               (localItem\<lparr>UserIdsWithAccess := userIdsWithAccess\<rparr>)
                               (resolve deferred)
                               (getOnFail deferred))
                 (getOnFail deferred))))"

function syncNextUserAccessForItem ::
  "globals \<Rightarrow> string list \<Rightarrow> nat \<Rightarrow> syncDataResult \<Rightarrow> string \<Rightarrow> deferred \<Rightarrow> task" where
  "syncNextUserAccessForItem g itemIds index syncDataResult serverId deferred =
     (if index \<ge> length itemIds then resolve deferred
      else syncUserAccessForItem g (itemIds ! index) syncDataResult
             (syncNextUserAccessForItem g itemIds (index + 1) syncDataResult serverId deferred)
             (syncNextUserAccessForItem g itemIds (index + 1) syncDataResult serverId deferred))"
  by pat_completeness auto
termination
  by (relation "measure (\<lambda>(g, ids, index, res, serverId, deferred). length ids - index)") auto

declare syncNextUserAccessForItem.simps [simp del]

definition syncUserItemAccess ::
  "globals \<Rightarrow> syncDataResult \<Rightarrow> string \<Rightarrow> task \<Rightarrow> task \<Rightarrow> task" where
  "syncUserItemAccess g syncDataResult serverId k_done k_fail =
     seq (Logger_log ''Begin syncUserItemAccess'')
     (Deferred k_done k_fail (\<lambda>deferred.
        syncNextUserAccessForItem g (map fst (ItemUserAccess syncDataResult)) 0
          syncDataResult serverId deferred))"

subsection \<open>syncData and afterSyncData\<close>

text \<open>
  \<open>afterSyncData\<close> starts the removal, attaches the two callbacks to its promise, and then
  runs its last statement, \<open>deferred.resolve()\<close> (line 113).
\<close>

definition afterSyncData ::
  "globals \<Rightarrow> apiClient \<Rightarrow> serverInfo \<Rightarrow> bool \<Rightarrow> syncDataResult \<Rightarrow> deferred \<Rightarrow> task" where
  "afterSyncData g apiClient serverInfo enableSyncUserItemAccess syncDataResult deferred =
     seq (Logger_log ''Begin afterSyncData'')
    (seq (removeLocalItems syncDataResult (server_Id serverInfo)
            (if enableSyncUserItemAccess
             then syncUserItemAccess g syncDataResult (server_Id serverInfo)
                    (resolve deferred)
                    (getOnFail deferred)
             else resolve deferred)
            (getOnFail deferred))
         (resolve deferred))"

definition syncData ::
  "globals \<Rightarrow> apiClient \<Rightarrow> serverInfo \<Rightarrow> bool \<Rightarrow> task \<Rightarrow> task \<Rightarrow> task" where
  "syncData g apiClient serverInfo syncUserItemAccess_flag k_done k_fail =
     seq (Logger_log ''Begin syncData'')
     (Deferred k_done k_fail (\<lambda>deferred.
        require
          (LocalAssetManager_getServerItemIds (server_Id serverInfo)
             (\<lambda>localIds.
                apiClient_syncData
                  \<lparr>TargetId = deviceId apiClient,
                   LocalItemIds = localIds,
                   OfflineUserIds =
                     map user_Id (case Users serverInfo of None \<Rightarrow> [] | Some us \<Rightarrow> us)\<rparr>
                  (\<lambda>result. afterSyncData g apiClient serverInfo syncUserItemAccess_flag
                               result deferred)
                  (getOnFail deferred))
             (getOnFail deferred))))"

subsection \<open>Media, images and subtitles of a job item\<close>

definition downloadMedia :: "apiClient \<Rightarrow> jobItem \<Rightarrow> localItem \<Rightarrow> task \<Rightarrow> task \<Rightarrow> task" where
  "downloadMedia apiClient jobItem localItem k_done k_fail =
     Deferred k_done k_fail (\<lambda>deferred.
       require
         (let url = getUrl apiClient (''Sync/JobItems/'' @ SyncJobItemId jobItem @ ''/File'')
                      [(''api_key'', accessToken apiClient)];
              localPath = LocalPath localItem
          in seq (Logger_log (''Downloading media. Url: '' @ url @ ''. Local path: '' @ localPath))
               (LocalAssetManager_downloadFile url localPath
                  (LocalAssetManager_addOrUpdateLocalItem localItem
                     (resolve deferred)
                     (getOnFail deferred))
                  (getOnFail deferred))))"

definition downloadImage ::
  "apiClient \<Rightarrow> string \<Rightarrow> string \<Rightarrow> string \<Rightarrow> string \<Rightarrow> task \<Rightarrow> task \<Rightarrow> task" where
  "downloadImage apiClient serverId itemId imageTag imageType k_done k_fail =
     seq (Logger_log ''Begin downloadImage'')
     (Deferred k_done k_fail (\<lambda>deferred.
        require
          (LocalAssetManager_hasImage serverId itemId imageTag
             (\<lambda>hasImage.
                if hasImage then resolve deferred
                else LocalAssetManager_downloadImage
                       (getImageUrl apiClient itemId
                          [(''Tag'', imageTag), (''ImageType'', imageType),
                           (''api_key'', accessToken apiClient)])
                       serverId itemId imageTag
                       (resolve deferred)
                       (getOnFail deferred))
             skip)))"

text \<open>
  The \<open>switch (index)\<close> of getNextImage: the values of \<open>itemId\<close>, \<open>imageType\<close> and \<open>imageTag\<close>
  after it. The variables start as \<open>null\<close>, \<open>"Primary"\<close> and \<open>null\<close>.
\<close>

definition image_slot :: "nat \<Rightarrow> libraryItem \<Rightarrow> string option \<times> string \<times> string option" where
  "image_slot index libraryItem =
     (if index = 0 then
        (Some (item_Id libraryItem), ''Primary'',
         map_of (case ImageTags libraryItem of None \<Rightarrow> [] | Some tags \<Rightarrow> tags) ''Primary'')
      else if index = 1 then
        (SeriesId libraryItem, ''Primary'', SeriesPrimaryImageTag libraryItem)
      else if index = 2 then
        (SeriesId libraryItem, ''Thumb'', SeriesPrimaryImageTag libraryItem)
      else if index = 3 then
        (AlbumId libraryItem, ''Primary'', AlbumPrimaryImageTag libraryItem)
      else (None, ''Primary'', None))"

text \<open>
  \<open>getNextImage(index, apiClient, localItem, deferred)\<close> reads \<open>item.Item\<close>; \<open>item\<close> is not
  one of its parameters.
\<close>

function getNextImage :: "globals \<Rightarrow> nat \<Rightarrow> apiClient \<Rightarrow> localItem \<Rightarrow> deferred \<Rightarrow> task" where
  "getNextImage g index apiClient localItem deferred =
     (if index \<ge> 4 then resolve deferred
      else case global_item g of
        None \<Rightarrow> throw (ReferenceError ''item'')
      | Some item \<Rightarrow>
          (case image_slot index (Item item) of (itemId, imageType, imageTag) \<Rightarrow>
             if \<not> truthy itemId then resolve deferred
             else if \<not> truthy imageTag then
               getNextImage g (index + 1) apiClient localItem deferred
             else downloadImage apiClient (ServerId (Item item)) (the itemId) (the imageTag)
                    imageType
                    (getNextImage g (index + 1) apiClient localItem deferred)
                    (getOnFail deferred)))"
  by pat_completeness auto
termination
  by (relation "measure (\<lambda>(g, index, apiClient, localItem, deferred). 4 - index)") auto

declare getNextImage.simps [simp del]

definition getImages ::
  "globals \<Rightarrow> apiClient \<Rightarrow> jobItem \<Rightarrow> localItem \<Rightarrow> task \<Rightarrow> task \<Rightarrow> task" where
  "getImages g apiClient jobItem localItem k_done k_fail =
     Deferred k_done k_fail (\<lambda>deferred. getNextImage g 0 apiClient localItem deferred)"

text \<open>
  When no stream matches, getItemSubtitle rejects its deferred and returns \<open>undefined\<close>
  instead of the promise: no callback is ever attached to that deferred, and the caller's
  \<open>.done\<close> on \<open>undefined\<close> throws a TypeError.
\<close>

definition getItemSubtitle ::
  "additionalFile \<Rightarrow> apiClient \<Rightarrow> jobItem \<Rightarrow> localItem \<Rightarrow> mediaSource \<Rightarrow> task \<Rightarrow> task \<Rightarrow> task" where
  "getItemSubtitle file apiClient jobItem localItem mediaSource k_done k_fail =
     seq (Logger_log ''Begin getItemSubtitle'')
     (Deferred k_done k_fail (\<lambda>deferred.
        case filter (\<lambda>m. stream_Type m = ''Subtitle'' \<and> stream_Index m = file_Index file)
               (MediaStreams mediaSource) of
          [] \<Rightarrow>
            seq (Logger_log ''Cannot download subtitles because matching stream info wasn't found.'')
           (seq (settle Rejected (did deferred) skip)
                (throw (TypeError ''Cannot read property done of undefined'')))
        | subtitleStream # _ \<Rightarrow>
            (let url = getUrl apiClient
                         (''Sync/JobItems/'' @ SyncJobItemId jobItem @ ''/AdditionalFiles'')
                         [(''Name'', file_Name file), (''api_key'', accessToken apiClient)]
             in require
                  (LocalAssetManager_downloadSubtitles url localItem subtitleStream
                     (\<lambda>subtitlePath.
                        seq (emit (Assigned_Path subtitleStream subtitlePath))
                            (LocalAssetManager_addOrUpdateLocalItem localItem
                               (resolve deferred)
                               (getOnFail deferred)))
                     (getOnFail deferred)))))"

text \<open>
  \<open>getNextSubtitle(files, index, apiClient, jobItem, localItem, mediaSource)\<close> calls
  \<open>deferred.resolve()\<close> and passes \<open>file\<close>; neither is one of its parameters.
\<close>

function getNextSubtitle ::
  "globals \<Rightarrow> additionalFile list \<Rightarrow> nat \<Rightarrow> apiClient \<Rightarrow> jobItem \<Rightarrow> localItem \<Rightarrow> mediaSource \<Rightarrow> task"
  where
  "getNextSubtitle g files index apiClient jobItem localItem mediaSource =
     (if index \<ge> length files then
        (case global_deferred g of
           None \<Rightarrow> throw (ReferenceError ''deferred'')
         | Some deferred \<Rightarrow> resolve deferred)
      else
        (case global_file g of
           None \<Rightarrow> throw (ReferenceError ''file'')
         | Some file \<Rightarrow>
             getItemSubtitle file apiClient jobItem localItem mediaSource
               (getNextSubtitle g files (index + 1) apiClient jobItem localItem mediaSource)
               (getNextSubtitle g files (index + 1) apiClient jobItem localItem mediaSource)))"
  by pat_completeness auto
termination
  by (relation "measure (\<lambda>(g, files, index, rest). length files - index)") auto

declare getNextSubtitle.simps [simp del]

definition getSubtitles ::
  "globals \<Rightarrow> apiClient \<Rightarrow> jobItem \<Rightarrow> localItem \<Rightarrow> task \<Rightarrow> task \<Rightarrow> task" where
  "getSubtitles g apiClient jobItem localItem k_done k_fail =
     seq (Logger_log ''Begin getSubtitles'')
     (Deferred k_done k_fail (\<lambda>deferred.
        require
          (case MediaSources (Item jobItem) of
             [] \<Rightarrow>
               seq (logger_Error g
                      ''Cannot download subtitles because video has no media source info.'')
                   (resolve deferred)
           | mediaSource # _ \<Rightarrow>
               getNextSubtitle g
                 (filter (\<lambda>f. file_Type f = ''Subtitles'') (AdditionalFiles jobItem))
                 0 apiClient jobItem localItem mediaSource)))"

subsection \<open>Fetching new content\<close>

definition getNewItem ::
  "globals \<Rightarrow> jobItem \<Rightarrow> apiClient \<Rightarrow> serverInfo \<Rightarrow> task \<Rightarrow> task \<Rightarrow> task" where
  "getNewItem g jobItem apiClient serverInfo k_done k_fail =
     seq (Logger_log ''Begin getNewItem'')
     (Deferred k_done k_fail (\<lambda>deferred.
        require
          (LocalAssetManager_createLocalItem (Item jobItem) serverInfo (OriginalFileName jobItem)
             (\<lambda>localItem.
                downloadMedia apiClient jobItem localItem
                  (getImages g apiClient jobItem localItem
                     (getSubtitles g apiClient jobItem localItem
                        (apiClient_reportSyncJobItemTransferred (SyncJobItemId jobItem)
                           (resolve deferred)
                           (getOnFail deferred))
                        (getOnFail deferred))
                     (getOnFail deferred))
                  (getOnFail deferred))
             (getOnFail deferred))))"

function getNextNewItem ::
  "globals \<Rightarrow> jobItem list \<Rightarrow> nat \<Rightarrow> apiClient \<Rightarrow> serverInfo \<Rightarrow> deferred \<Rightarrow> task" where
  "getNextNewItem g jobItems index apiClient serverInfo deferred =
     (if index \<ge> length jobItems then resolve deferred
      else getNewItem g (jobItems ! index) apiClient serverInfo
             (getNextNewItem g jobItems (index + 1) apiClient serverInfo deferred)
             (getNextNewItem g jobItems (index + 1) apiClient serverInfo deferred))"
  by pat_completeness auto
termination
  by (relation "measure (\<lambda>(g, jobItems, index, rest). length jobItems - index)") auto

declare getNextNewItem.simps [simp del]

definition getNewMedia :: "globals \<Rightarrow> apiClient \<Rightarrow> serverInfo \<Rightarrow> task \<Rightarrow> task \<Rightarrow> task" where
  "getNewMedia g apiClient serverInfo k_done k_fail =
     seq (Logger_log ''Begin getNewMedia'')
     (Deferred k_done k_fail (\<lambda>deferred.
        apiClient_getReadySyncItems (deviceId apiClient)
          (\<lambda>jobItems. getNextNewItem g jobItems 0 apiClient serverInfo deferred)
          (getOnFail deferred)))"

subsection \<open>The entry point\<close>

definition sync :: "globals \<Rightarrow> apiClient \<Rightarrow> serverInfo \<Rightarrow> task \<Rightarrow> task \<Rightarrow> task" where
  "sync g apiClient serverInfo k_done k_fail =
     Deferred k_done k_fail (\<lambda>deferred.
       reportOfflineActions apiClient serverInfo
         (syncData g apiClient serverInfo False
            (getNewMedia g apiClient serverInfo
               (syncData g apiClient serverInfo False
                  (resolve deferred)
                  (getOnFail deferred))
               (getOnFail deferred))
            (getOnFail deferred))
         (getOnFail deferred))"

section \<open>Vocabulary of the statements\<close>

text \<open>
  A task is quiet to depth \<open>n\<close> when neither it nor any callback it leaves behind, \<open>n\<close>
  replies deep, adds an event of the kind \<open>bad\<close> to the trace; it is safe when it is quiet
  to every depth. A safe task never produces a bad event, whatever the environment does.
\<close>

primrec quiet :: "(event \<Rightarrow> bool) \<Rightarrow> nat \<Rightarrow> task \<Rightarrow> bool" where
  "quiet bad 0 t = True"
| "quiet bad (Suc n) t =
     (\<forall>s. case run t s of (s', ps, e) \<Rightarrow>
        (\<exists>evs. trace s' = trace s @ evs \<and> (\<forall>ev\<in>set evs. \<not> bad ev)) \<and>
        (\<forall>(c, k)\<in>set ps. \<forall>r. quiet bad n (k r)))"

definition safe :: "(event \<Rightarrow> bool) \<Rightarrow> task \<Rightarrow> bool" where
  "safe bad t = (\<forall>n. quiet bad n t)"

definition clean :: "(event \<Rightarrow> bool) \<Rightarrow> machine \<Rightarrow> bool" where
  "clean bad m = ((\<forall>ev\<in>set (trace (m_store m)). \<not> bad ev) \<and>
                  (\<forall>(c, k)\<in>set (m_pending m). \<forall>r. safe bad (k r)))"

text \<open>The events that start one of the operations \<open>hot\<close>.\<close>

definition forbidden :: "(extcall \<Rightarrow> bool) \<Rightarrow> event \<Rightarrow> bool" where
  "forbidden hot ev = (case ev of Call c \<Rightarrow> hot c | _ \<Rightarrow> False)"

definition loads_local_item :: "extcall \<Rightarrow> bool" where
  "loads_local_item c = (case c of LAM_getLocalItem _ _ \<Rightarrow> True | _ \<Rightarrow> False)"


definition reports_transfer :: "extcall \<Rightarrow> bool" where
  "reports_transfer c = (case c of Api_reportSyncJobItemTransferred _ \<Rightarrow> True | _ \<Rightarrow> False)"

definition narrow :: "(extcall \<Rightarrow> bool) \<Rightarrow> bool" where
  "narrow hot = (\<forall>c. hot c \<longrightarrow> loads_local_item c \<or> reports_transfer c)"

definition is_removal :: "extcall \<Rightarrow> bool" where
  "is_removal c = (case c of LAM_removeLocalItem _ _ \<Rightarrow> True | _ \<Rightarrow> False)"

text \<open>
  The environment's part of a removal loop: for each item the \<open>require\<close> callback, then
  the deletion, which succeeds (\<open>True\<close>) or fails (\<open>False\<close>).
\<close>

definition removal_replies :: "bool list \<Rightarrow> (nat \<times> reply) list" where
  "removal_replies oks =
     concat (map (\<lambda>ok. [(0, R_unit), (0, if ok then R_unit else R_fail)]) oks)"

definition removal_calls :: "string list \<Rightarrow> string \<Rightarrow> extcall list" where
  "removal_calls ids serverId =
     concat (map (\<lambda>itemId. [Require, LAM_removeLocalItem itemId serverId]) ids)"

subsection \<open>Concrete inputs\<close>

definition example_api :: apiClient where
  "example_api = \<lparr>deviceId = ''device1'', accessToken = ''token'',
     getUrl = (\<lambda>name params. ''/'' @ name),
     getImageUrl = (\<lambda>itemId params. ''/Items/'' @ itemId @ ''/Images'')\<rparr>"

definition example_server :: serverInfo where
  "example_server = \<lparr>server_Id = ''server1'', Users = Some [\<lparr>user_Id = ''u1''\<rparr>]\<rparr>"

text \<open>
  A job item with a primary image, a series without a series image tag and an album with
  one, and one media source.
\<close>

definition example_job :: jobItem where
  "example_job =
     \<lparr>Item = \<lparr>item_Id = ''i1'', ServerId = ''server1'',
               ImageTags = Some [(''Primary'', ''tag0'')],
               SeriesId = Some ''series1'', SeriesPrimaryImageTag = None,
               AlbumId = Some ''album1'', AlbumPrimaryImageTag = Some ''tag3'',
               MediaSources = [\<lparr>MediaStreams = []\<rparr>]\<rparr>,
      OriginalFileName = ''film.mkv'', AdditionalFiles = [], SyncJobItemId = ''job1''\<rparr>"

definition example_local :: localItem where
  "example_local = \<lparr>LocalPath = ''/local/film.mkv'', UserIdsWithAccess = [''b'', ''a'']\<rparr>"

definition example_access :: syncDataResult where
  "example_access = \<lparr>ItemIdsToRemove = [], ItemUserAccess = [(''i1'', [''a'', ''b''])]\<rparr>"

definition example_removal :: syncDataResult where
  "example_removal = \<lparr>ItemIdsToRemove = [''a'', ''b''], ItemUserAccess = []\<rparr>"

section \<open>Running tasks\<close>

lemma run_skip: "run skip s = (s, [], None)"
  by (simp add: skip_def)

lemma run_throw: "run (throw e) s = (s, [], Some e)"
  by (simp add: throw_def)

lemma run_emit: "run (emit ev) s = (s\<lparr>trace := trace s @ [ev]\<rparr>, [], None)"
  by (simp add: emit_def)

lemma run_Logger_log: "run (Logger_log msg) s = (s\<lparr>trace := trace s @ [Log msg]\<rparr>, [], None)"
  by (simp add: Logger_log_def run_emit)

lemma run_await: "run (await c k) s = (s\<lparr>trace := trace s @ [Call c]\<rparr>, [(c, k)], None)"
  by (simp add: await_def)

lemma run_seq:
  "run (seq t1 t2) s = (case run t1 s of
       (s1, ps1, Some e) \<Rightarrow> (s1, ps1, Some e)
     | (s1, ps1, None) \<Rightarrow> (case run t2 s1 of (s2, ps2, r) \<Rightarrow> (s2, ps1 @ ps2, r)))"
  by (simp add: seq_def)

lemma run_Deferred:
  "run (Deferred k_done k_fail body) s =
     run (body \<lparr>did = length (statuses s), on_done = k_done, on_fail = k_fail\<rparr>)
         (s\<lparr>statuses := statuses s @ [Pending]\<rparr>)"
  by (simp add: Deferred_def)

lemma run_settle:
  "run (settle st d callback) s =
    (if d < length (statuses s) \<and> statuses s ! d = Pending
     then run callback (s\<lparr>statuses := (statuses s)[d := st], trace := trace s @ [Settled d st]\<rparr>)
     else (s, [], None))"
  by (simp add: settle_def)

text \<open>
  The equations of the script are used where a task is run, not inside the callbacks
  that wait.
\<close>

lemma run_eq: "t = u \<Longrightarrow> run t s = run u s"
  by simp

lemmas run_simps = run_skip run_throw run_emit run_Logger_log run_await run_seq run_Deferred
  run_settle resolve_def[THEN run_eq] reject_def[THEN run_eq] promise_def[THEN run_eq]
  require_def[THEN run_eq] getOnFail_def[THEN run_eq] logger_Error_def[THEN run_eq] Let_def

lemmas machine_simps = start_def turn_def complete_def note_uncaught_def snapshot_def calls_def

lemmas api_defs = LocalAssetManager_getOfflineActions_def apiClient_reportOfflineActions_def
  LocalAssetManager_deleteOfflineActions_def LocalAssetManager_getServerItemIds_def
  apiClient_syncData_def LocalAssetManager_removeLocalItem_def apiClient_getReadySyncItems_def
  LocalAssetManager_createLocalItem_def LocalAssetManager_downloadFile_def
  LocalAssetManager_addOrUpdateLocalItem_def LocalAssetManager_hasImage_def
  LocalAssetManager_downloadImage_def LocalAssetManager_downloadSubtitles_def
  apiClient_reportSyncJobItemTransferred_def LocalAssetManager_getLocalItem_def

lemmas api_runs = api_defs[THEN run_eq]

lemmas script_runs = reportOfflineActions_def[THEN run_eq] removeLocalItem_def[THEN run_eq]
  removeNextLocalItem.simps[THEN run_eq] removeLocalItems_def[THEN run_eq]
  syncUserAccessForItem_def[THEN run_eq] syncNextUserAccessForItem.simps[THEN run_eq]
  syncUserItemAccess_def[THEN run_eq] afterSyncData_def[THEN run_eq] syncData_def[THEN run_eq]
  downloadMedia_def[THEN run_eq] downloadImage_def[THEN run_eq]
  getNextImage.simps[THEN run_eq] getImages_def[THEN run_eq] getItemSubtitle_def[THEN run_eq]
  getNextSubtitle.simps[THEN run_eq] getSubtitles_def[THEN run_eq] getNewItem_def[THEN run_eq]
  getNextNewItem.simps[THEN run_eq] getNewMedia_def[THEN run_eq] sync_def[THEN run_eq]

lemma calls_append: "calls (xs @ ys) = calls xs @ calls ys"
  by (simp add: calls_def)

lemma calls_simps:
  "calls [] = []"
  "calls (Call c # evs) = c # calls evs"
  "calls (Log msg # evs) = calls evs"
  "calls (LogError msg # evs) = calls evs"
  "calls (Completed c r # evs) = calls evs"
  "calls (Settled d st # evs) = calls evs"
  "calls (Assigned_Path ms p # evs) = calls evs"
  "calls (Uncaught e # evs) = calls evs"
  by (simp_all add: calls_def)

lemma exec_Cons:
  "exec (c # cs) m =
     (case complete (fst c) (snd c) m of None \<Rightarrow> None | Some m' \<Rightarrow> exec cs m')"
  by (cases c) simp

lemma exec_append:
  "exec (xs @ ys) m = (case exec xs m of None \<Rightarrow> None | Some m' \<Rightarrow> exec ys m')"
  by (induction xs arbitrary: m) (auto split: option.splits)

text \<open>With nothing in flight, nothing can happen any more.\<close>

lemma exec_stuck: "m_pending m = [] \<Longrightarrow> exec (c # cs) m = None"
  by (cases c) (simp add: complete_def)

lemma list_cases5:
  obtains "xs = []" | a where "xs = [a]" | a b where "xs = [a, b]"
    | a b c where "xs = [a, b, c]" | a b c d where "xs = [a, b, c, d]"
    | a b c d e ys where "xs = a # b # c # d # e # ys"
  by (metis list.exhaust)

lemma take_nth_eq: "take n xs = ys \<Longrightarrow> i < length ys \<Longrightarrow> xs ! i = ys ! i"
  by (metis length_take min_less_iff_conj nth_take)

lemma take_length_le: "take n xs = ys \<Longrightarrow> length ys \<le> length xs"
  by (metis length_take min.cobounded1)

section \<open>Operations that a task never starts\<close>

lemma safeI:
  assumes "\<And>s s' ps e. run t s = (s', ps, e) \<Longrightarrow>
     (\<exists>evs. trace s' = trace s @ evs \<and> (\<forall>ev\<in>set evs. \<not> bad ev)) \<and>
     (\<forall>(c, k)\<in>set ps. \<forall>r. safe bad (k r))"
  shows "safe bad t"
  unfolding safe_def
proof
  fix n show "quiet bad n t"
  proof (cases n)
    case 0 then show ?thesis by simp
  next
    case (Suc m)
    show ?thesis unfolding Suc quiet.simps
    proof (intro allI)
      fix s
      obtain s' ps e where r: "run t s = (s', ps, e)" by (cases "run t s") auto
      from assms[OF r] show "case run t s of (s', ps, e) \<Rightarrow>
        (\<exists>evs. trace s' = trace s @ evs \<and> (\<forall>ev\<in>set evs. \<not> bad ev)) \<and>
        (\<forall>(c, k)\<in>set ps. \<forall>r. quiet bad m (k r))"
        by (auto simp: r safe_def)
    qed
  qed
qed

lemma safe_quiet: "safe bad t \<Longrightarrow> quiet bad n t"
  unfolding safe_def by (rule spec)

lemma quiet_SucD:
  assumes "quiet bad (Suc n) t" and "run t s = (s', ps, e)"
  shows "(\<exists>evs. trace s' = trace s @ evs \<and> (\<forall>ev\<in>set evs. \<not> bad ev)) \<and>
     (\<forall>(c, k)\<in>set ps. \<forall>r. quiet bad n (k r))"
proof -
  from assms(1) have "case run t s of (s', ps, e) \<Rightarrow>
        (\<exists>evs. trace s' = trace s @ evs \<and> (\<forall>ev\<in>set evs. \<not> bad ev)) \<and>
        (\<forall>(c, k)\<in>set ps. \<forall>r. quiet bad n (k r))"
    by simp
  with assms(2) show ?thesis by simp
qed

lemma safeD:
  assumes "safe bad t" and "run t s = (s', ps, e)"
  shows "(\<exists>evs. trace s' = trace s @ evs \<and> (\<forall>ev\<in>set evs. \<not> bad ev)) \<and>
     (\<forall>(c, k)\<in>set ps. \<forall>r. safe bad (k r))"
proof
  from quiet_SucD[OF safe_quiet[OF assms(1)] assms(2)]
  show "\<exists>evs. trace s' = trace s @ evs \<and> (\<forall>ev\<in>set evs. \<not> bad ev)" by simp
next
  show "\<forall>(c, k)\<in>set ps. \<forall>r. safe bad (k r)"
  proof (clarify)
    fix c k r assume m: "(c, k) \<in> set ps"
    show "safe bad (k r)" unfolding safe_def
    proof
      fix n
      from quiet_SucD[OF safe_quiet[OF assms(1)] assms(2), of n] m
      show "quiet bad n (k r)" by auto
    qed
  qed
qed

lemma safe_skip: "safe bad skip"
  by (rule safeI) (simp add: run_skip)

lemma safe_throw: "safe bad (throw e)"
  by (rule safeI) (simp add: run_throw)

lemma safe_emit: "\<not> bad ev \<Longrightarrow> safe bad (emit ev)"
  by (rule safeI) (auto simp add: run_emit)

lemma safe_await: "\<not> bad (Call c) \<Longrightarrow> (\<And>r. safe bad (k r)) \<Longrightarrow> safe bad (await c k)"
  by (rule safeI) (auto simp add: run_await)

lemma safe_seq:
  assumes "safe bad t1" "safe bad t2"
  shows "safe bad (seq t1 t2)"
proof (rule safeI)
  fix s s' ps e assume r: "run (seq t1 t2) s = (s', ps, e)"
  obtain s1 ps1 e1 where r1: "run t1 s = (s1, ps1, e1)" by (cases "run t1 s") auto
  note d1 = safeD[OF assms(1) r1]
  show "(\<exists>evs. trace s' = trace s @ evs \<and> (\<forall>ev\<in>set evs. \<not> bad ev)) \<and>
     (\<forall>(c, k)\<in>set ps. \<forall>r. safe bad (k r))"
  proof (cases e1)
    case (Some x)
    with r r1 have "s' = s1" "ps = ps1" by (auto simp: run_seq)
    with d1 show ?thesis by simp
  next
    case None
    obtain s2 ps2 e2 where r2: "run t2 s1 = (s2, ps2, e2)" by (cases "run t2 s1") auto
    note d2 = safeD[OF assms(2) r2]
    from None r r1 r2 have eq: "s' = s2" "ps = ps1 @ ps2" by (auto simp: run_seq)
    from d1 obtain evs1 where e1: "trace s1 = trace s @ evs1" "\<forall>ev\<in>set evs1. \<not> bad ev"
      by auto
    from d2 obtain evs2 where e2: "trace s2 = trace s1 @ evs2" "\<forall>ev\<in>set evs2. \<not> bad ev"
      by auto
    have "trace s' = trace s @ (evs1 @ evs2) \<and> (\<forall>ev\<in>set (evs1 @ evs2). \<not> bad ev)"
      using e1 e2 eq by auto
    then have "\<exists>evs. trace s' = trace s @ evs \<and> (\<forall>ev\<in>set evs. \<not> bad ev)" by blast
    moreover have "\<forall>(c, k)\<in>set ps. \<forall>r. safe bad (k r)" using d1 d2 eq by auto
    ultimately show ?thesis by simp
  qed
qed

lemma safe_Deferred_any:
  assumes "\<And>d. safe bad (body d)"
  shows "safe bad (Deferred k_done k_fail body)"
proof (rule safeI)
  fix s s' ps e assume r: "run (Deferred k_done k_fail body) s = (s', ps, e)"
  let ?d = "\<lparr>did = length (statuses s), on_done = k_done, on_fail = k_fail\<rparr>"
  from r have "run (body ?d) (s\<lparr>statuses := statuses s @ [Pending]\<rparr>) = (s', ps, e)"
    by (simp add: run_Deferred)
  from safeD[OF assms this]
  show "(\<exists>evs. trace s' = trace s @ evs \<and> (\<forall>ev\<in>set evs. \<not> bad ev)) \<and>
     (\<forall>(c, k)\<in>set ps. \<forall>r. safe bad (k r))" by simp
qed

lemma safe_Deferred:
  assumes "safe bad k_done" "safe bad k_fail"
    and "\<And>d. safe bad (on_done d) \<Longrightarrow> safe bad (on_fail d) \<Longrightarrow> safe bad (body d)"
  shows "safe bad (Deferred k_done k_fail body)"
proof (rule safeI)
  fix s s' ps e assume r: "run (Deferred k_done k_fail body) s = (s', ps, e)"
  let ?d = "\<lparr>did = length (statuses s), on_done = k_done, on_fail = k_fail\<rparr>"
  have sb: "safe bad (body ?d)" by (rule assms(3)) (simp_all add: assms(1,2))
  from r have "run (body ?d) (s\<lparr>statuses := statuses s @ [Pending]\<rparr>) = (s', ps, e)"
    by (simp add: run_Deferred)
  from safeD[OF sb this]
  show "(\<exists>evs. trace s' = trace s @ evs \<and> (\<forall>ev\<in>set evs. \<not> bad ev)) \<and>
     (\<forall>(c, k)\<in>set ps. \<forall>r. safe bad (k r))" by simp
qed

lemma safe_settle:
  assumes "\<not> bad (Settled d st)" "safe bad callback"
  shows "safe bad (settle st d callback)"
proof (rule safeI)
  fix s s' ps e assume r: "run (settle st d callback) s = (s', ps, e)"
  show "(\<exists>evs. trace s' = trace s @ evs \<and> (\<forall>ev\<in>set evs. \<not> bad ev)) \<and>
     (\<forall>(c, k)\<in>set ps. \<forall>r. safe bad (k r))"
  proof (cases "d < length (statuses s) \<and> statuses s ! d = Pending")
    case True
    with r have "run callback
        (s\<lparr>statuses := (statuses s)[d := st], trace := trace s @ [Settled d st]\<rparr>) = (s', ps, e)"
      by (simp add: run_settle)
    from safeD[OF assms(2) this] obtain evs where
      e: "trace s' = trace s @ [Settled d st] @ evs" "\<forall>ev\<in>set evs. \<not> bad ev"
      and p: "\<forall>(c, k)\<in>set ps. \<forall>r. safe bad (k r)" by auto
    have "trace s' = trace s @ (Settled d st # evs) \<and> (\<forall>ev\<in>set (Settled d st # evs). \<not> bad ev)"
      using e assms(1) by simp
    then have "\<exists>evs. trace s' = trace s @ evs \<and> (\<forall>ev\<in>set evs. \<not> bad ev)" by blast
    with p show ?thesis by simp
  next
    case False
    with r have "s' = s" "ps = []" by (auto simp: run_settle)
    then show ?thesis by simp
  qed
qed

lemma safe_resolve:
  "\<not> bad (Settled (did d) Resolved) \<Longrightarrow> safe bad (on_done d) \<Longrightarrow> safe bad (resolve d)"
  by (simp add: resolve_def safe_settle)

lemma safe_reject:
  "\<not> bad (Settled (did d) Rejected) \<Longrightarrow> safe bad (on_fail d) \<Longrightarrow> safe bad (reject d)"
  by (simp add: reject_def safe_settle)

lemma safe_promise:
  "\<not> bad (Call c) \<Longrightarrow> (\<And>r. safe bad (k_done r)) \<Longrightarrow> safe bad k_fail \<Longrightarrow>
     safe bad (promise c k_done k_fail)"
  by (simp add: promise_def safe_await)

lemma safe_require: "\<not> bad (Call Require) \<Longrightarrow> safe bad callback \<Longrightarrow> safe bad (require callback)"
  by (simp add: require_def safe_await)

lemmas safe_intros = safe_seq safe_Deferred safe_require safe_promise safe_emit safe_resolve
  safe_reject safe_skip safe_throw safe_settle

subsection \<open>A safe task keeps the machine clean\<close>

lemma clean_turn:
  assumes "safe bad t" "\<forall>ev\<in>set (trace s). \<not> bad ev"
    "\<forall>(c, k)\<in>set ps. \<forall>r. safe bad (k r)" "\<And>e. \<not> bad (Uncaught e)"
  shows "clean bad (turn t s ps)"
proof -
  obtain s' new e where r: "run t s = (s', new, e)" by (cases "run t s") auto
  from safeD[OF assms(1) r] obtain evs where
    e: "trace s' = trace s @ evs" "\<forall>ev\<in>set evs. \<not> bad ev"
    and p: "\<forall>(c, k)\<in>set new. \<forall>r. safe bad (k r)" by auto
  show ?thesis using r e p assms(2,3,4)
    by (auto simp: clean_def turn_def note_uncaught_def split: option.splits)
qed

lemma clean_complete:
  assumes "clean bad m" "complete i r m = Some m'"
    "\<And>c r. \<not> bad (Completed c r)" "\<And>e. \<not> bad (Uncaught e)"
  shows "clean bad m'"
proof -
  from assms(2) have i: "i < length (m_pending m)"
    and m': "m' = turn (snd (m_pending m ! i) r)
               ((m_store m)\<lparr>trace := trace (m_store m) @ [Completed (fst (m_pending m ! i)) r]\<rparr>)
               (take i (m_pending m) @ drop (Suc i) (m_pending m))"
    by (auto simp: complete_def split: if_splits)
  from i have mem: "m_pending m ! i \<in> set (m_pending m)" by simp
  with assms(1) have k: "safe bad (snd (m_pending m ! i) r)"
    by (cases "m_pending m ! i") (auto simp: clean_def)
  have sub: "set (take i (m_pending m) @ drop (Suc i) (m_pending m)) \<subseteq> set (m_pending m)"
    by (auto dest: in_set_takeD in_set_dropD)
  have rest: "\<forall>(c, k)\<in>set (take i (m_pending m) @ drop (Suc i) (m_pending m)).
                \<forall>r. safe bad (k r)"
    using assms(1) sub unfolding clean_def by blast
  have tr: "\<forall>ev\<in>set (trace ((m_store m)\<lparr>trace := trace (m_store m) @
                 [Completed (fst (m_pending m ! i)) r]\<rparr>)). \<not> bad ev"
    using assms(1,3) by (auto simp: clean_def)
  show ?thesis unfolding m' by (rule clean_turn[OF k tr rest assms(4)])
qed

lemma clean_exec:
  assumes "\<And>c r. \<not> bad (Completed c r)" "\<And>e. \<not> bad (Uncaught e)"
  shows "clean bad m \<Longrightarrow> exec script m = Some m' \<Longrightarrow> clean bad m'"
proof (induction script arbitrary: m)
  case Nil then show ?case by simp
next
  case (Cons c cs)
  from Cons.prems(2) obtain m1 where 1: "complete (fst c) (snd c) m = Some m1"
    and 2: "exec cs m1 = Some m'"
    by (auto simp: exec_Cons split: option.splits)
  from clean_complete[OF Cons.prems(1) 1 assms] have "clean bad m1" .
  from Cons.IH[OF this 2] show ?case .
qed

lemma safe_never:
  assumes "safe bad t" "\<And>c r. \<not> bad (Completed c r)" "\<And>e. \<not> bad (Uncaught e)"
    "exec script (start t) = Some m"
  shows "\<forall>ev\<in>set (trace (m_store m)). \<not> bad ev"
proof -
  have "clean bad (start t)" unfolding start_def
    by (rule clean_turn[OF assms(1)]) (simp_all add: assms(3))
  from clean_exec[OF assms(2,3) this assms(4)] show ?thesis by (simp add: clean_def)
qed

subsection \<open>The functions of the script\<close>

lemma forbidden_simps [simp]:
  "forbidden hot (Call c) = hot c"
  "forbidden hot (Log msg) = False"
  "forbidden hot (LogError msg) = False"
  "forbidden hot (Completed c r) = False"
  "forbidden hot (Settled d st) = False"
  "forbidden hot (Assigned_Path ms p) = False"
  "forbidden hot (Uncaught e) = False"
  by (simp_all add: forbidden_def)

lemma narrow_simps:
  assumes "narrow hot"
  shows "\<not> hot Require" "\<not> hot (LAM_getOfflineActions a)" "\<not> hot (Api_reportOfflineActions b)"
    "\<not> hot (LAM_deleteOfflineActions b)" "\<not> hot (LAM_getServerItemIds a)"
    "\<not> hot (Api_syncData rq)" "\<not> hot (LAM_removeLocalItem a a2)"
    "\<not> hot (Api_getReadySyncItems a)" "\<not> hot (LAM_createLocalItem li si a)"
    "\<not> hot (LAM_downloadFile a a2)" "\<not> hot (LAM_addOrUpdateLocalItem lo)"
    "\<not> hot (LAM_hasImage a a2 a3)" "\<not> hot (LAM_downloadImage a a2 a3 a4)"
    "\<not> hot (LAM_downloadSubtitles a lo ms)"
  using assms by (auto simp: narrow_def loads_local_item_def reports_transfer_def)

lemma safe_reportOfflineActions:
  assumes "narrow hot" "safe (forbidden hot) k_done" "safe (forbidden hot) k_fail"
  shows "safe (forbidden hot) (reportOfflineActions apiClient serverInfo k_done k_fail)"
  unfolding reportOfflineActions_def api_defs getOnFail_def Logger_log_def
  by (auto intro!: safe_intros simp: assms narrow_simps[OF assms(1)])

lemma safe_removeLocalItem:
  assumes "narrow hot" "safe (forbidden hot) k_done" "safe (forbidden hot) k_fail"
  shows "safe (forbidden hot) (removeLocalItem itemId serverId k_done k_fail)"
  unfolding removeLocalItem_def api_defs getOnFail_def Logger_log_def
  by (auto intro!: safe_intros simp: assms narrow_simps[OF assms(1)])

lemma safe_removeNextLocalItem:
  assumes "narrow hot" "safe (forbidden hot) (on_done d)"
  shows "safe (forbidden hot) (removeNextLocalItem ids index serverId d)"
proof (induction "length ids - index" arbitrary: index)
  case 0
  then show ?case
    by (subst removeNextLocalItem.simps) (simp add: safe_resolve assms)
next
  case (Suc n)
  then have "n = length ids - (index + 1)" by simp
  from Suc.hyps(1)[OF this] Suc.hyps(2) show ?case
    by (subst removeNextLocalItem.simps) (simp add: safe_removeLocalItem safe_resolve assms)
qed

lemma safe_removeLocalItems:
  assumes "narrow hot" "safe (forbidden hot) k_done" "safe (forbidden hot) k_fail"
  shows "safe (forbidden hot) (removeLocalItems res serverId k_done k_fail)"
  unfolding removeLocalItems_def Logger_log_def
  by (auto intro!: safe_intros safe_removeNextLocalItem simp: assms)

lemma safe_afterSyncData:
  assumes "narrow hot" "safe (forbidden hot) (on_done d)" "safe (forbidden hot) (on_fail d)"
  shows "safe (forbidden hot) (afterSyncData g apiClient serverInfo False res d)"
  unfolding afterSyncData_def getOnFail_def Logger_log_def
  by (auto intro!: safe_intros safe_removeLocalItems simp: assms)

lemma safe_syncData:
  assumes "narrow hot" "safe (forbidden hot) k_done" "safe (forbidden hot) k_fail"
  shows "safe (forbidden hot) (syncData g apiClient serverInfo False k_done k_fail)"
  unfolding syncData_def api_defs getOnFail_def Logger_log_def
  by (auto intro!: safe_intros safe_afterSyncData simp: assms narrow_simps[OF assms(1)])

lemma safe_downloadMedia:
  assumes "narrow hot" "safe (forbidden hot) k_done" "safe (forbidden hot) k_fail"
  shows "safe (forbidden hot) (downloadMedia apiClient jobItem localItem k_done k_fail)"
  unfolding downloadMedia_def api_defs getOnFail_def Logger_log_def Let_def
  by (auto intro!: safe_intros simp: assms narrow_simps[OF assms(1)])

lemma safe_downloadImage:
  assumes "narrow hot" "safe (forbidden hot) k_done" "safe (forbidden hot) k_fail"
  shows "safe (forbidden hot)
           (downloadImage apiClient serverId itemId imageTag imageType k_done k_fail)"
  unfolding downloadImage_def api_defs getOnFail_def Logger_log_def
  by (auto intro!: safe_intros simp: assms narrow_simps[OF assms(1)])

lemma safe_getNextImage:
  assumes "narrow hot" "safe (forbidden hot) (on_done d)" "safe (forbidden hot) (on_fail d)"
  shows "safe (forbidden hot) (getNextImage g index apiClient localItem d)"
proof (induction "4 - index" arbitrary: index)
  case 0
  then show ?case
    by (subst getNextImage.simps) (simp add: safe_resolve assms)
next
  case (Suc n)
  then have "n = 4 - (index + 1)" by simp
  from Suc.hyps(1)[OF this] Suc.hyps(2) show ?case
    by (subst getNextImage.simps)
       (auto simp add: safe_downloadImage safe_resolve safe_reject safe_throw getOnFail_def assms
             split: option.splits prod.splits)
qed

lemma safe_getImages:
  assumes "narrow hot" "safe (forbidden hot) k_done" "safe (forbidden hot) k_fail"
  shows "safe (forbidden hot) (getImages g apiClient jobItem localItem k_done k_fail)"
  unfolding getImages_def
  by (auto intro!: safe_intros safe_getNextImage simp: assms)

lemma safe_getItemSubtitle:
  assumes "narrow hot" "safe (forbidden hot) k_done" "safe (forbidden hot) k_fail"
  shows "safe (forbidden hot)
           (getItemSubtitle file apiClient jobItem localItem mediaSource k_done k_fail)"
  unfolding getItemSubtitle_def api_defs getOnFail_def Logger_log_def Let_def
  by (auto intro!: safe_intros simp: assms narrow_simps[OF assms(1)] split: list.splits)

lemma safe_getNextSubtitle:
  assumes "narrow hot" "global_deferred g = None"
  shows "safe (forbidden hot)
           (getNextSubtitle g files index apiClient jobItem localItem mediaSource)"
proof (induction "length files - index" arbitrary: index)
  case 0
  then show ?case
    by (subst getNextSubtitle.simps) (simp add: safe_throw assms)
next
  case (Suc n)
  then have "n = length files - (index + 1)" by simp
  from Suc.hyps(1)[OF this] Suc.hyps(2) show ?case
    by (subst getNextSubtitle.simps)
       (auto simp add: safe_getItemSubtitle safe_throw assms split: option.splits)
qed

lemma safe_getSubtitles:
  assumes "narrow hot" "global_deferred g = None"
    "safe (forbidden hot) k_done" "safe (forbidden hot) k_fail"
  shows "safe (forbidden hot) (getSubtitles g apiClient jobItem localItem k_done k_fail)"
  unfolding getSubtitles_def logger_Error_def Logger_log_def
  by (auto intro!: safe_intros safe_getNextSubtitle simp: assms narrow_simps[OF assms(1)]
        split: list.splits)

lemma safe_getNewItem:
  assumes "narrow hot" "global_deferred g = None"
    "\<And>x. \<not> hot (Api_reportSyncJobItemTransferred x)"
    "safe (forbidden hot) k_done" "safe (forbidden hot) k_fail"
  shows "safe (forbidden hot) (getNewItem g jobItem apiClient serverInfo k_done k_fail)"
  unfolding getNewItem_def LocalAssetManager_createLocalItem_def
    apiClient_reportSyncJobItemTransferred_def getOnFail_def Logger_log_def
  by (auto intro!: safe_intros safe_downloadMedia safe_getImages safe_getSubtitles
        simp: assms narrow_simps[OF assms(1)])

lemma safe_getNextNewItem:
  assumes "narrow hot" "global_deferred g = None"
    "\<And>x. \<not> hot (Api_reportSyncJobItemTransferred x)" "safe (forbidden hot) (on_done d)"
  shows "safe (forbidden hot) (getNextNewItem g jobItems index apiClient serverInfo d)"
proof (induction "length jobItems - index" arbitrary: index)
  case 0
  then show ?case
    by (subst getNextNewItem.simps) (simp add: safe_resolve assms)
next
  case (Suc n)
  then have "n = length jobItems - (index + 1)" by simp
  from Suc.hyps(1)[OF this] Suc.hyps(2) show ?case
    by (subst getNextNewItem.simps) (simp add: safe_getNewItem safe_resolve assms)
qed

lemma safe_getNewMedia:
  assumes "narrow hot" "global_deferred g = None"
    "\<And>x. \<not> hot (Api_reportSyncJobItemTransferred x)"
    "safe (forbidden hot) k_done" "safe (forbidden hot) k_fail"
  shows "safe (forbidden hot) (getNewMedia g apiClient serverInfo k_done k_fail)"
  unfolding getNewMedia_def apiClient_getReadySyncItems_def getOnFail_def Logger_log_def
  by (auto intro!: safe_intros safe_getNextNewItem simp: assms narrow_simps[OF assms(1)])

lemma safe_sync:
  assumes "narrow hot" "global_deferred g = None"
    "\<And>x. \<not> hot (Api_reportSyncJobItemTransferred x)"
    "safe (forbidden hot) k_done" "safe (forbidden hot) k_fail"
  shows "safe (forbidden hot) (sync g apiClient serverInfo k_done k_fail)"
  unfolding sync_def getOnFail_def
  by (auto intro!: safe_Deferred safe_reportOfflineActions safe_syncData safe_getNewMedia
        safe_resolve safe_reject simp: assms)

text \<open>
  Once the media sources are not empty, getSubtitles goes through getNextSubtitle, which
  throws: whatever the callbacks of getSubtitles are, they never run.
\<close>

lemma getNextSubtitle_faults:
  assumes "global_deferred g = None" "global_file g = None"
  shows "run (getNextSubtitle g files index apiClient jobItem localItem mediaSource) s =
     (s, [], Some (ReferenceError (if index \<ge> length files then ''deferred'' else ''file'')))"
  using assms by (subst getNextSubtitle.simps) (simp add: run_simps)

lemma safe_getSubtitles_stalls:
  assumes "narrow hot" "MediaSources (Item jobItem) \<noteq> []"
    "global_deferred g = None" "global_file g = None"
  shows "safe (forbidden hot) (getSubtitles g apiClient jobItem localItem k_done k_fail)"
proof -
  have t: "\<And>files index mediaSource. safe (forbidden hot)
      (getNextSubtitle g files index apiClient jobItem localItem mediaSource)"
    by (subst getNextSubtitle.simps) (simp add: assms safe_throw)
  show ?thesis
    unfolding getSubtitles_def Logger_log_def using assms(2)
    by (auto intro!: safe_seq safe_emit safe_Deferred_any safe_require t
          simp: narrow_simps[OF assms(1)] split: list.splits)
qed

lemma safe_getNewItem_stalls:
  assumes "MediaSources (Item jobItem) \<noteq> []" "global_deferred g = None" "global_file g = None"
  shows "safe (forbidden reports_transfer) (getNewItem g jobItem apiClient serverInfo skip skip)"
proof -
  have n: "narrow reports_transfer" by (simp add: narrow_def)
  show ?thesis
    unfolding getNewItem_def Logger_log_def LocalAssetManager_createLocalItem_def getOnFail_def
    by (auto intro!: safe_seq safe_emit safe_Deferred safe_require safe_promise safe_skip
          safe_downloadMedia safe_getImages safe_getSubtitles_stalls safe_reject n
          simp: assms narrow_simps[OF n])
qed

section \<open>The entry point: two reconciliation passes\<close>

text \<open>
  C1: in every successful sync run the second reconciliation pass, the one after the fetch
  of new content, is to run with access propagation enabled, so that the local items named
  in the access mapping are loaded and their access lists updated. The code does
  otherwise: \<open>sync\<close> passes the literal \<open>false\<close> to both calls of \<open>syncData\<close> (lines 14 and 20),
  so the gate of \<open>afterSyncData\<close> (line 100) is never entered and \<open>syncUserItemAccess\<close>
  (lines 440 to 500) is unreachable from \<open>sync\<close>. In no run of \<open>sync\<close>, whatever the
  environment replies and in whatever order, is a local item loaded for access
  propagation. (The global scope is arbitrary but for \<open>deferred\<close>, whose callbacks would be
  foreign code.)
\<close>

theorem sync_never_propagates_access:
  assumes "global_deferred g = None"
    and "exec script (start (sync g apiClient serverInfo skip skip)) = Some m"
  shows "\<forall>itemId serverId. Call (LAM_getLocalItem itemId serverId) \<notin> set (trace (m_store m))"
proof -
  have n: "narrow loads_local_item" by (simp add: narrow_def)
  have "safe (forbidden loads_local_item) (sync g apiClient serverInfo skip skip)"
    by (rule safe_sync[OF n assms(1)]) (simp_all add: loads_local_item_def safe_skip)
  from safe_never[OF this _ _ assms(2)]
  have "\<forall>ev\<in>set (trace (m_store m)). \<not> forbidden loads_local_item ev" by simp
  then show ?thesis by (auto simp: loads_local_item_def)
qed

theorem sync_never_propagates_access_witness:
  "global_deferred no_globals = None \<and>
   (\<exists>m. exec [(0, R_unit), (0, R_actions []), (0, R_unit), (0, R_ids []),
               (0, R_result \<lparr>ItemIdsToRemove = [], ItemUserAccess = []\<rparr>),
               (0, R_jobs []), (0, R_unit), (0, R_ids [''i1'']), (0, R_result example_access)]
           (start (sync no_globals example_api example_server skip skip)) = Some m \<and>
        statuses (m_store m) ! 0 = Resolved \<and>
        (\<forall>itemId serverId. Call (LAM_getLocalItem itemId serverId) \<notin> set (trace (m_store m))))"
proof -
  have g: "global_deferred no_globals = None" by (simp add: no_globals_def)
  have "\<exists>m. exec [(0, R_unit), (0, R_actions []), (0, R_unit), (0, R_ids []),
               (0, R_result \<lparr>ItemIdsToRemove = [], ItemUserAccess = []\<rparr>),
               (0, R_jobs []), (0, R_unit), (0, R_ids [''i1'']), (0, R_result example_access)]
           (start (sync no_globals example_api example_server skip skip)) = Some m \<and>
        statuses (m_store m) ! 0 = Resolved"
    by (simp add: example_api_def example_server_def example_access_def
          script_runs run_simps machine_simps api_runs)
  then obtain m where
    e: "exec [(0, R_unit), (0, R_actions []), (0, R_unit), (0, R_ids []),
               (0, R_result \<lparr>ItemIdsToRemove = [], ItemUserAccess = []\<rparr>),
               (0, R_jobs []), (0, R_unit), (0, R_ids [''i1'']), (0, R_result example_access)]
           (start (sync no_globals example_api example_server skip skip)) = Some m"
    and r: "statuses (m_store m) ! 0 = Resolved" by blast
  from sync_never_propagates_access[OF g e] g e r show ?thesis by blast
qed

text \<open>
  Such a run in full: it is successful (the deferred of \<open>sync\<close>, number 0, is resolved and
  nothing is in flight) and the second reconciliation result names the item \<open>i1\<close> in its
  access mapping; yet among the operations the run started there is no
  \<open>LocalAssetManager.getLocalItem\<close>.
\<close>

lemma second_pass_skips_access_propagation:
  "map_option (\<lambda>m. (statuses (m_store m) ! 0, calls (trace (m_store m)), map fst (m_pending m)))
     (exec [(0, R_unit), (0, R_actions []), (0, R_unit), (0, R_ids []),
            (0, R_result \<lparr>ItemIdsToRemove = [], ItemUserAccess = []\<rparr>),
            (0, R_jobs []), (0, R_unit), (0, R_ids [''i1'']), (0, R_result example_access)]
        (start (sync no_globals example_api example_server skip skip))) =
   Some (Resolved,
         [Require, LAM_getOfflineActions ''server1'',
          Require, LAM_getServerItemIds ''server1'',
          Api_syncData \<lparr>TargetId = ''device1'', LocalItemIds = [], OfflineUserIds = [''u1'']\<rparr>,
          Api_getReadySyncItems ''device1'',
          Require, LAM_getServerItemIds ''server1'',
          Api_syncData \<lparr>TargetId = ''device1'', LocalItemIds = [''i1''], OfflineUserIds = [''u1'']\<rparr>],
         [])"
  by (simp add: example_api_def example_server_def example_access_def
        script_runs run_simps machine_simps api_runs)

section \<open>Reconciliation\<close>

text \<open>
  C2: the completion of a reconciliation call is signalled only after the removal
  sub-phase has finished for every element. The code does otherwise, for every
  reconciliation result with something to remove and either value of the flag: in the turn
  that delivers the result, \<open>afterSyncData\<close> starts the removal of the first item (its
  \<open>require\<close> is in flight, \<open>LocalAssetManager.removeLocalItem\<close> has not been called) and then
  resolves the deferred of \<open>syncData\<close>, number 0, at its last line. The deferreds 1 and 2
  are those of \<open>removeLocalItems\<close> and \<open>removeLocalItem\<close>.
\<close>

theorem reconcile_resolves_before_removal:
  assumes "ItemIdsToRemove res \<noteq> []"
  shows "map_option snapshot
     (exec [(0, R_unit), (0, R_ids localIds), (0, R_result res)]
        (start (syncData g apiClient serverInfo flag skip skip))) =
     Some ([Resolved, Pending, Pending],
           [Log ''Begin syncData'', Call Require, Completed Require R_unit,
            Call (LAM_getServerItemIds (server_Id serverInfo)),
            Completed (LAM_getServerItemIds (server_Id serverInfo)) (R_ids localIds),
            Call (Api_syncData
                    \<lparr>TargetId = deviceId apiClient, LocalItemIds = localIds,
                     OfflineUserIds =
                       map user_Id (case Users serverInfo of None \<Rightarrow> [] | Some us \<Rightarrow> us)\<rparr>),
            Completed (Api_syncData
                    \<lparr>TargetId = deviceId apiClient, LocalItemIds = localIds,
                     OfflineUserIds =
                       map user_Id (case Users serverInfo of None \<Rightarrow> [] | Some us \<Rightarrow> us)\<rparr>)
              (R_result res),
            Log ''Begin afterSyncData'', Log ''Begin removeLocalItems'',
            Log ''Begin removeLocalItem'', Call Require, Settled 0 Resolved],
           [Require])"
  using assms
  by (simp add: script_runs run_simps machine_simps api_runs)

theorem reconcile_resolves_before_removal_witness:
  "ItemIdsToRemove example_removal \<noteq> [] \<and>
   map_option snapshot
     (exec [(0, R_unit), (0, R_ids [''a'', ''b'']), (0, R_result example_removal)]
        (start (syncData no_globals example_api example_server False skip skip))) =
     Some ([Resolved, Pending, Pending],
           [Log ''Begin syncData'', Call Require, Completed Require R_unit,
            Call (LAM_getServerItemIds ''server1''),
            Completed (LAM_getServerItemIds ''server1'') (R_ids [''a'', ''b'']),
            Call (Api_syncData \<lparr>TargetId = ''device1'', LocalItemIds = [''a'', ''b''],
                    OfflineUserIds = [''u1'']\<rparr>),
            Completed (Api_syncData \<lparr>TargetId = ''device1'', LocalItemIds = [''a'', ''b''],
                    OfflineUserIds = [''u1'']\<rparr>) (R_result example_removal),
            Log ''Begin afterSyncData'', Log ''Begin removeLocalItems'',
            Log ''Begin removeLocalItem'', Call Require, Settled 0 Resolved],
           [Require])"
proof -
  have h: "ItemIdsToRemove example_removal \<noteq> []" by (simp add: example_removal_def)
  from reconcile_resolves_before_removal[OF h, of "[''a'', ''b'']" no_globals example_api
        example_server False] h
  show ?thesis by (simp add: example_api_def example_server_def)
qed

text \<open>The removal loop, one item at a time.\<close>

lemma removal_step:
  assumes "index < length ids"
  shows "exec [(0, R_unit), (0, if ok then R_unit else R_fail)]
           (turn (removeNextLocalItem ids index serverId d) s []) =
         Some (turn (removeNextLocalItem ids (index + 1) serverId d)
                 (s\<lparr>statuses := statuses s @ [if ok then Resolved else Rejected],
                    trace := trace s @
                      [Log ''Begin removeLocalItem'', Call Require, Completed Require R_unit,
                       Call (LAM_removeLocalItem (ids ! index) serverId),
                       Completed (LAM_removeLocalItem (ids ! index) serverId)
                         (if ok then R_unit else R_fail),
                       Settled (length (statuses s)) (if ok then Resolved else Rejected)]\<rparr>) [])"
  using assms
  by (subst removeNextLocalItem.simps)
     (simp add: removeLocalItem_def[THEN run_eq] run_simps machine_simps api_runs)

lemma removal_loop:
  assumes "length oks = length ids - index" "index \<le> length ids"
  shows "\<exists>s'. exec (removal_replies oks) (turn (removeNextLocalItem ids index serverId d) s []) =
                Some (turn (resolve d) s' []) \<and>
              calls (trace s') = calls (trace s) @ removal_calls (drop index ids) serverId \<and>
              take (length (statuses s)) (statuses s') = statuses s"
  using assms
proof (induction oks arbitrary: index s)
  case Nil
  then have "index = length ids" by simp
  then have "exec (removal_replies []) (turn (removeNextLocalItem ids index serverId d) s []) =
                Some (turn (resolve d) s []) \<and>
              calls (trace s) = calls (trace s) @ removal_calls (drop index ids) serverId \<and>
              take (length (statuses s)) (statuses s) = statuses s"
    by (subst removeNextLocalItem.simps) (simp add: removal_replies_def removal_calls_def)
  then show ?case by blast
next
  case (Cons ok oks)
  then have lt: "index < length ids" and len: "length oks = length ids - (index + 1)"
    and le: "index + 1 \<le> length ids" by auto
  let ?s1 = "s\<lparr>statuses := statuses s @ [if ok then Resolved else Rejected],
                    trace := trace s @
                      [Log ''Begin removeLocalItem'', Call Require, Completed Require R_unit,
                       Call (LAM_removeLocalItem (ids ! index) serverId),
                       Completed (LAM_removeLocalItem (ids ! index) serverId)
                         (if ok then R_unit else R_fail),
                       Settled (length (statuses s)) (if ok then Resolved else Rejected)]\<rparr>"
  from Cons.IH[OF len le, of ?s1] obtain s' where
    ex: "exec (removal_replies oks) (turn (removeNextLocalItem ids (index + 1) serverId d) ?s1 []) =
           Some (turn (resolve d) s' [])"
    and ca: "calls (trace s') = calls (trace ?s1) @ removal_calls (drop (index + 1) ids) serverId"
    and st: "take (length (statuses ?s1)) (statuses s') = statuses ?s1" by blast
  have split: "removal_replies (ok # oks) =
      [(0, R_unit), (0, if ok then R_unit else R_fail)] @ removal_replies oks"
    by (simp add: removal_replies_def)
  have 1: "exec (removal_replies (ok # oks)) (turn (removeNextLocalItem ids index serverId d) s []) =
           Some (turn (resolve d) s' [])"
    unfolding split exec_append removal_step[OF lt] using ex by simp
  have dr: "drop index ids = ids ! index # drop (index + 1) ids"
    using lt by (simp add: Cons_nth_drop_Suc)
  have 2: "calls (trace s') = calls (trace s) @ removal_calls (drop index ids) serverId"
    unfolding ca dr by (simp add: calls_append calls_simps removal_calls_def)
  from st have "take (length (statuses s)) (take (Suc (length (statuses s))) (statuses s')) =
      take (length (statuses s)) (statuses s @ [if ok then Resolved else Rejected])" by simp
  then have 3: "take (length (statuses s)) (statuses s') = statuses s" by (simp add: min_def)
  from 1 2 3 show ?case by blast
qed

lemma filter_removal_calls:
  "filter is_removal (removal_calls ids serverId) =
     map (\<lambda>itemId. LAM_removeLocalItem itemId serverId) ids"
  by (induction ids) (simp_all add: removal_calls_def is_removal_def)

text \<open>The reconciliation call up to the reply of the first deletion.\<close>

lemma reconcile_first_removal:
  assumes "ItemIdsToRemove res = itemId # ids"
  shows "exec [(0, R_unit), (0, R_ids localIds), (0, R_result res), (0, R_unit),
               (0, if ok then R_unit else R_fail)]
           (start (syncData g apiClient serverInfo flag skip skip)) =
         Some (turn (removeNextLocalItem (itemId # ids) 1 (server_Id serverInfo)
                  \<lparr>did = 1,
                   on_done = (if flag
                     then syncUserItemAccess g res (server_Id serverInfo)
                            (resolve \<lparr>did = 0, on_done = skip, on_fail = skip\<rparr>)
                            (getOnFail \<lparr>did = 0, on_done = skip, on_fail = skip\<rparr>)
                     else resolve \<lparr>did = 0, on_done = skip, on_fail = skip\<rparr>),
                   on_fail = getOnFail \<lparr>did = 0, on_done = skip, on_fail = skip\<rparr>\<rparr>)
            \<lparr>statuses = [Resolved, Pending, if ok then Resolved else Rejected],
             trace =
               [Log ''Begin syncData'', Call Require, Completed Require R_unit,
                Call (LAM_getServerItemIds (server_Id serverInfo)),
                Completed (LAM_getServerItemIds (server_Id serverInfo)) (R_ids localIds),
                Call (Api_syncData
                        \<lparr>TargetId = deviceId apiClient, LocalItemIds = localIds,
                         OfflineUserIds =
                           map user_Id (case Users serverInfo of None \<Rightarrow> [] | Some us \<Rightarrow> us)\<rparr>),
                Completed (Api_syncData
                        \<lparr>TargetId = deviceId apiClient, LocalItemIds = localIds,
                         OfflineUserIds =
                           map user_Id (case Users serverInfo of None \<Rightarrow> [] | Some us \<Rightarrow> us)\<rparr>)
                  (R_result res),
                Log ''Begin afterSyncData'', Log ''Begin removeLocalItems'',
                Log ''Begin removeLocalItem'', Call Require, Settled 0 Resolved,
                Completed Require R_unit,
                Call (LAM_removeLocalItem itemId (server_Id serverInfo)),
                Completed (LAM_removeLocalItem itemId (server_Id serverInfo))
                  (if ok then R_unit else R_fail),
                Settled 2 (if ok then Resolved else Rejected)]\<rparr> [])"
  using assms
  by (simp add: script_runs run_simps machine_simps api_runs eval_nat_numeral)

text \<open>
  The end of the removal: the deferred of \<open>removeLocalItems\<close> is resolved, and its callback
  starts no other deletion and leaves the deferred of \<open>syncData\<close> as it is.
\<close>

lemma after_removal:
  assumes "take 3 (statuses s') = [Resolved, Pending, st]"
  shows "\<exists>m. turn (resolve
                  \<lparr>did = 1,
                   on_done = (if flag
                     then syncUserItemAccess g res serverId
                            (resolve \<lparr>did = 0, on_done = skip, on_fail = skip\<rparr>)
                            (getOnFail \<lparr>did = 0, on_done = skip, on_fail = skip\<rparr>)
                     else resolve \<lparr>did = 0, on_done = skip, on_fail = skip\<rparr>),
                   on_fail = getOnFail \<lparr>did = 0, on_done = skip, on_fail = skip\<rparr>\<rparr>) s' [] = m \<and>
          filter is_removal (calls (trace (m_store m))) = filter is_removal (calls (trace s')) \<and>
          statuses (m_store m) ! 0 = Resolved \<and> statuses (m_store m) ! 1 = Resolved"
proof -
  from take_nth_eq[OF assms, of 0] take_nth_eq[OF assms, of 1] take_length_le[OF assms]
  have f: "statuses s' ! 0 = Resolved" "statuses s' ! 1 = Pending" "3 \<le> length (statuses s')"
    by simp_all
  then have ne: "statuses s' \<noteq> []" by auto
  show ?thesis
  proof (cases flag)
    case False
    with f show ?thesis
      by (simp add: script_runs run_simps machine_simps calls_append calls_simps)
  next
    case True
    show ?thesis
    proof (cases "ItemUserAccess res")
      case Nil
      with True f ne show ?thesis
        by (simp add: script_runs run_simps machine_simps nth_append nth_list_update is_removal_def)
    next
      case (Cons a as)
      with True f ne show ?thesis
        by (simp add: script_runs run_simps machine_simps nth_append nth_list_update is_removal_def)
    qed
  qed
qed

text \<open>
  C8: in the removal sub-phase of a reconciliation, a deletion that fails does not keep
  the later items from being tried, and no failed deletion fails the reconciliation call.
  For every removal list and every assignment of success or failure to its items
  (\<open>oks\<close>), and for either value of the flag: the run in which the deletions end that way
  exists, the deletions it attempts are exactly the items of the list, each once and in
  order, and both the deferred of \<open>syncData\<close> (number 0) and the deferred of
  \<open>removeLocalItems\<close> (number 1) end resolved.
\<close>

theorem removal_fault_isolation:
  assumes "length oks = length (ItemIdsToRemove res)"
  shows "\<exists>m. exec ([(0, R_unit), (0, R_ids localIds), (0, R_result res)] @ removal_replies oks)
               (start (syncData g apiClient serverInfo flag skip skip)) = Some m \<and>
             filter is_removal (calls (trace (m_store m))) =
               map (\<lambda>itemId. LAM_removeLocalItem itemId (server_Id serverInfo))
                 (ItemIdsToRemove res) \<and>
             statuses (m_store m) ! 0 = Resolved \<and> statuses (m_store m) ! 1 = Resolved"
proof (cases "ItemIdsToRemove res")
  case Nil
  with assms have "oks = []" by simp
  with Nil show ?thesis
    by (cases flag; cases "ItemUserAccess res")
       (simp_all add: removal_replies_def script_runs run_simps machine_simps api_runs is_removal_def)
next
  case (Cons itemId ids)
  with assms obtain ok oks' where oks: "oks = ok # oks'"
    and len: "length oks' = length (itemId # ids) - 1"
    by (cases oks) auto
  let ?d0 = "\<lparr>did = 0, on_done = skip, on_fail = skip\<rparr>"
  let ?d1 = "\<lparr>did = 1,
              on_done = (if flag
                then syncUserItemAccess g res (server_Id serverInfo) (resolve ?d0) (getOnFail ?d0)
                else resolve ?d0),
              on_fail = getOnFail ?d0\<rparr>"
  let ?s5 = "\<lparr>statuses = [Resolved, Pending, if ok then Resolved else Rejected],
             trace =
               [Log ''Begin syncData'', Call Require, Completed Require R_unit,
                Call (LAM_getServerItemIds (server_Id serverInfo)),
                Completed (LAM_getServerItemIds (server_Id serverInfo)) (R_ids localIds),
                Call (Api_syncData
                        \<lparr>TargetId = deviceId apiClient, LocalItemIds = localIds,
                         OfflineUserIds =
                           map user_Id (case Users serverInfo of None \<Rightarrow> [] | Some us \<Rightarrow> us)\<rparr>),
                Completed (Api_syncData
                        \<lparr>TargetId = deviceId apiClient, LocalItemIds = localIds,
                         OfflineUserIds =
                           map user_Id (case Users serverInfo of None \<Rightarrow> [] | Some us \<Rightarrow> us)\<rparr>)
                  (R_result res),
                Log ''Begin afterSyncData'', Log ''Begin removeLocalItems'',
                Log ''Begin removeLocalItem'', Call Require, Settled 0 Resolved,
                Completed Require R_unit,
                Call (LAM_removeLocalItem itemId (server_Id serverInfo)),
                Completed (LAM_removeLocalItem itemId (server_Id serverInfo))
                  (if ok then R_unit else R_fail),
                Settled 2 (if ok then Resolved else Rejected)]\<rparr>"
  have script: "[(0, R_unit), (0, R_ids localIds), (0, R_result res)] @ removal_replies oks =
      [(0, R_unit), (0, R_ids localIds), (0, R_result res), (0, R_unit),
               (0, if ok then R_unit else R_fail)] @ removal_replies oks'"
    by (simp add: oks removal_replies_def)
  from removal_loop[OF len, of "server_Id serverInfo" ?d1 ?s5]
  obtain s' where
    ex: "exec (removal_replies oks')
           (turn (removeNextLocalItem (itemId # ids) 1 (server_Id serverInfo) ?d1) ?s5 []) =
           Some (turn (resolve ?d1) s' [])"
    and ca: "calls (trace s') =
               calls (trace ?s5) @ removal_calls (drop 1 (itemId # ids)) (server_Id serverInfo)"
    and tk: "take (length (statuses ?s5)) (statuses s') = statuses ?s5"
    by auto
  from tk have tk3: "take 3 (statuses s') = [Resolved, Pending, if ok then Resolved else Rejected]"
    by (simp add: eval_nat_numeral)
  from after_removal[OF tk3, of flag g res "server_Id serverInfo"] obtain m where
    m: "turn (resolve ?d1) s' [] = m"
    and mc: "filter is_removal (calls (trace (m_store m))) = filter is_removal (calls (trace s'))"
    and ms: "statuses (m_store m) ! 0 = Resolved" "statuses (m_store m) ! 1 = Resolved"
    by blast
  have 1: "exec ([(0, R_unit), (0, R_ids localIds), (0, R_result res)] @ removal_replies oks)
               (start (syncData g apiClient serverInfo flag skip skip)) = Some m"
    unfolding script exec_append reconcile_first_removal[OF Cons] using ex m by simp
  have 2: "filter is_removal (calls (trace (m_store m))) =
               map (\<lambda>itemId. LAM_removeLocalItem itemId (server_Id serverInfo))
                 (ItemIdsToRemove res)"
    unfolding mc ca Cons
    by (simp add: calls_simps filter_removal_calls is_removal_def)
  from 1 2 ms show ?thesis by blast
qed

text \<open>
  The scenario of the specification: the removal list is \<open>a, b\<close>, deleting \<open>a\<close> fails and
  deleting \<open>b\<close> succeeds.
\<close>

theorem removal_fault_isolation_witness:
  "length [False, True] = length (ItemIdsToRemove example_removal) \<and>
   (\<exists>m. exec [(0, R_unit), (0, R_ids [''a'', ''b'']), (0, R_result example_removal),
               (0, R_unit), (0, R_fail), (0, R_unit), (0, R_unit)]
           (start (syncData no_globals example_api example_server False skip skip)) = Some m \<and>
        filter is_removal (calls (trace (m_store m))) =
          [LAM_removeLocalItem ''a'' ''server1'', LAM_removeLocalItem ''b'' ''server1''] \<and>
        statuses (m_store m) ! 0 = Resolved \<and> statuses (m_store m) ! 1 = Resolved)"
proof -
  have h: "length [False, True] = length (ItemIdsToRemove example_removal)"
    by (simp add: example_removal_def)
  from removal_fault_isolation[OF h, of "[''a'', ''b'']" no_globals example_api example_server
        False] h
  show ?thesis
    by (simp add: removal_replies_def example_removal_def example_server_def)
qed






text \<open>
  What the code after the faulting line does once \<open>serverId\<close> is bound: it compares
  \<open>join(',')\<close> of the two lists (line 484), which depends on their order. With the stored
  list \<open>b, a\<close> and the server's list \<open>a, b\<close> the sets are equal, the joined strings differ,
  and the item is written.
\<close>

lemma access_permuted_list_is_written:
  "set [''a'', ''b''] = set (UserIdsWithAccess example_local) \<and>
   map_option (\<lambda>m. calls (trace (m_store m)))
     (exec [(0, R_unit), (0, R_local example_local)]
        (start (syncUserAccessForItem (no_globals\<lparr>global_serverId := Some ''server1''\<rparr>) ''i1''
                  example_access skip skip))) =
   Some [Require, LAM_getLocalItem ''i1'' ''server1'',
         LAM_addOrUpdateLocalItem (example_local\<lparr>UserIdsWithAccess := [''a'', ''b'']\<rparr>)]"
  by (simp add: example_local_def example_access_def no_globals_def
        script_runs run_simps machine_simps api_runs insert_commute)

text \<open>
  In general, with \<open>serverId\<close> bound and the local item loaded: when the stored list and the
  server-reported list give the same string under \<open>join(',')\<close>, the deferred of the item
  (number 0) is resolved with nothing written and nothing in flight; when the two joined
  strings differ, \<open>LocalAssetManager.addOrUpdateLocalItem\<close> is started with the
  server-reported list.
\<close>

lemma access_written_iff_joined_lists_differ:
  assumes "global_serverId g = Some serverId"
    and "map_of (ItemUserAccess res) itemId = Some userIds"
  shows "map_option snapshot
     (exec [(0, R_unit), (0, R_local localItem)]
        (start (syncUserAccessForItem g itemId res skip skip))) =
   Some (if join '','' userIds = join '','' (UserIdsWithAccess localItem)
         then ([Resolved],
               [Log ''Begin syncUserAccessForItem'', Call Require, Completed Require R_unit,
                Call (LAM_getLocalItem itemId serverId),
                Completed (LAM_getLocalItem itemId serverId) (R_local localItem),
                Settled 0 Resolved], [])
         else ([Pending],
               [Log ''Begin syncUserAccessForItem'', Call Require, Completed Require R_unit,
                Call (LAM_getLocalItem itemId serverId),
                Completed (LAM_getLocalItem itemId serverId) (R_local localItem),
                Call (LAM_addOrUpdateLocalItem (localItem\<lparr>UserIdsWithAccess := userIds\<rparr>))],
               [LAM_addOrUpdateLocalItem (localItem\<lparr>UserIdsWithAccess := userIds\<rparr>)]))"
  using assms
  by (simp add: script_runs run_simps machine_simps api_runs)

section \<open>Reporting offline actions\<close>

text \<open>
  In every run of \<open>reportOfflineActions\<close>, a deletion of queued actions that has been
  started stands in the trace after the successful reply to the upload of the same actions.
\<close>

lemma delete_only_after_acknowledgement:
  assumes "exec script (start (reportOfflineActions apiClient serverInfo skip skip)) = Some m"
  shows "\<forall>acts. Call (LAM_deleteOfflineActions acts) \<in> set (trace (m_store m)) \<longrightarrow>
           Completed (Api_reportOfflineActions acts) R_unit \<in>
             set (takeWhile (\<lambda>ev. ev \<noteq> Call (LAM_deleteOfflineActions acts))
                    (trace (m_store m)))"
  using assms
  by (cases script rule: list_cases5)
     (auto simp add: exec_Cons script_runs run_simps machine_simps api_runs
           split: if_splits reply.splits)

text \<open>
  C3: for every non-empty queue of offline action records, a failed upload leaves the
  queue as it is, and records are deleted only after the server has acknowledged the
  upload. The local queue changes only through \<open>LocalAssetManager.deleteOfflineActions\<close>.
  First, the run in which the upload fails: the call is rejected (deferred 0), no deletion
  was started and nothing is in flight, so nothing more will happen. Second, the run in
  which the upload is acknowledged: the deletion of that batch is started then. Third,
  every run, whatever the environment replies: a deletion that was started comes after
  the acknowledgement of the upload of the same batch.
\<close>

theorem report_failure_keeps_queue:
  assumes "actions \<noteq> []"
  shows
    "map_option snapshot
       (exec [(0, R_unit), (0, R_actions actions), (0, R_fail)]
          (start (reportOfflineActions apiClient serverInfo skip skip))) =
     Some ([Rejected],
           [Log ''Begin reportOfflineActions'', Call Require, Completed Require R_unit,
            Call (LAM_getOfflineActions (server_Id serverInfo)),
            Completed (LAM_getOfflineActions (server_Id serverInfo)) (R_actions actions),
            Call (Api_reportOfflineActions actions),
            Completed (Api_reportOfflineActions actions) R_fail,
            Settled 0 Rejected],
           []) \<and>
     map_option snapshot
       (exec [(0, R_unit), (0, R_actions actions), (0, R_unit)]
          (start (reportOfflineActions apiClient serverInfo skip skip))) =
     Some ([Pending],
           [Log ''Begin reportOfflineActions'', Call Require, Completed Require R_unit,
            Call (LAM_getOfflineActions (server_Id serverInfo)),
            Completed (LAM_getOfflineActions (server_Id serverInfo)) (R_actions actions),
            Call (Api_reportOfflineActions actions),
            Completed (Api_reportOfflineActions actions) R_unit,
            Call (LAM_deleteOfflineActions actions)],
           [LAM_deleteOfflineActions actions]) \<and>
     (\<forall>script m.
        exec script (start (reportOfflineActions apiClient serverInfo skip skip)) = Some m \<longrightarrow>
        (\<forall>acts. Call (LAM_deleteOfflineActions acts) \<in> set (trace (m_store m)) \<longrightarrow>
           Completed (Api_reportOfflineActions acts) R_unit \<in>
             set (takeWhile (\<lambda>ev. ev \<noteq> Call (LAM_deleteOfflineActions acts))
                    (trace (m_store m)))))"
proof (intro conjI allI impI)
  show "map_option snapshot
       (exec [(0, R_unit), (0, R_actions actions), (0, R_fail)]
          (start (reportOfflineActions apiClient serverInfo skip skip))) =
     Some ([Rejected],
           [Log ''Begin reportOfflineActions'', Call Require, Completed Require R_unit,
            Call (LAM_getOfflineActions (server_Id serverInfo)),
            Completed (LAM_getOfflineActions (server_Id serverInfo)) (R_actions actions),
            Call (Api_reportOfflineActions actions),
            Completed (Api_reportOfflineActions actions) R_fail,
            Settled 0 Rejected],
           [])"
    using assms by (simp add: script_runs run_simps machine_simps api_runs)
next
  show "map_option snapshot
       (exec [(0, R_unit), (0, R_actions actions), (0, R_unit)]
          (start (reportOfflineActions apiClient serverInfo skip skip))) =
     Some ([Pending],
           [Log ''Begin reportOfflineActions'', Call Require, Completed Require R_unit,
            Call (LAM_getOfflineActions (server_Id serverInfo)),
            Completed (LAM_getOfflineActions (server_Id serverInfo)) (R_actions actions),
            Call (Api_reportOfflineActions actions),
            Completed (Api_reportOfflineActions actions) R_unit,
            Call (LAM_deleteOfflineActions actions)],
           [LAM_deleteOfflineActions actions])"
    using assms by (simp add: script_runs run_simps machine_simps api_runs)
next
  fix script m acts
  assume "exec script (start (reportOfflineActions apiClient serverInfo skip skip)) = Some m"
    and "Call (LAM_deleteOfflineActions acts) \<in> set (trace (m_store m))"
  with delete_only_after_acknowledgement
  show "Completed (Api_reportOfflineActions acts) R_unit \<in>
          set (takeWhile (\<lambda>ev. ev \<noteq> Call (LAM_deleteOfflineActions acts)) (trace (m_store m)))"
    by blast
qed

theorem report_failure_keeps_queue_witness:
  "[''action1'', ''action2''] \<noteq> [] \<and>
   map_option snapshot
     (exec [(0, R_unit), (0, R_actions [''action1'', ''action2'']), (0, R_fail)]
        (start (reportOfflineActions example_api example_server skip skip))) =
   Some ([Rejected],
         [Log ''Begin reportOfflineActions'', Call Require, Completed Require R_unit,
          Call (LAM_getOfflineActions ''server1''),
          Completed (LAM_getOfflineActions ''server1'') (R_actions [''action1'', ''action2'']),
          Call (Api_reportOfflineActions [''action1'', ''action2'']),
          Completed (Api_reportOfflineActions [''action1'', ''action2'']) R_fail,
          Settled 0 Rejected],
         [])"
proof -
  have h: "[''action1'', ''action2''] \<noteq> ([] :: offlineAction list)" by simp
  from report_failure_keeps_queue[OF h, of example_api example_server] h
  show ?thesis by (simp add: example_server_def)
qed

section \<open>Fetching new content\<close>

text \<open>
  C9: for every job item, \<open>getNextImage\<close> reads \<open>item.Item\<close> at its first slot although no
  enclosing function declares or receives \<open>item\<close> (the parameter is \<open>localItem\<close>, and
  \<open>getImages\<close> does not pass the job item on). With no global \<open>item\<close>, the image sub-step
  throws a ReferenceError in whatever state it is started: the trace is unchanged (no slot
  was looked up, skipped or downloaded), nothing is in flight, and the deferred of
  \<open>getImages\<close>, just created, stays pending, whatever the callbacks are.
\<close>

theorem getImages_faults_before_any_slot:
  assumes "global_item g = None"
  shows "run (getImages g apiClient jobItem localItem k_done k_fail) s =
           (s\<lparr>statuses := statuses s @ [Pending]\<rparr>, [], Some (ReferenceError ''item''))"
  using assms
  by (simp add: script_runs run_simps)

theorem getImages_faults_before_any_slot_witness:
  "global_item no_globals = None \<and>
   run (getImages no_globals example_api example_job example_local skip skip)
       \<lparr>statuses = [], trace = []\<rparr> =
     (\<lparr>statuses = [Pending], trace = []\<rparr>, [], Some (ReferenceError ''item''))"
proof -
  have h: "global_item no_globals = None" by (simp add: no_globals_def)
  from getImages_faults_before_any_slot[OF h, of example_api example_job example_local skip skip
        "\<lparr>statuses = [], trace = []\<rparr>"] h
  show ?thesis by simp
qed

text \<open>
  C5: during image processing for a job item a failure while evaluating or downloading one
  image slot is to be swallowed, with evaluation continuing at the next slot, so that no
  single slot's failure aborts or fails the image sub-step. The code does otherwise. With
  no global \<open>item\<close> the evaluation of the first slot fails with a ReferenceError (line 277),
  for every job item; the failure is not swallowed but leaves \<open>getImages\<close> uncaught, with no
  operation in flight. So the only run of the image sub-step is the empty one: no later
  slot is ever evaluated, and the deferred of the sub-step stays pending, so that neither
  of its callbacks runs.
\<close>

theorem image_slot_failure_ends_images:
  assumes "global_item g = None"
    and "exec script (start (getImages g apiClient jobItem localItem k_done k_fail)) = Some m"
  shows "script = [] \<and> snapshot m = ([Pending], [Uncaught (ReferenceError ''item'')], [])"
proof (cases script)
  case Nil
  with assms show ?thesis
    by (auto simp add: script_runs run_simps machine_simps)
next
  case (Cons c cs)
  have "m_pending (start (getImages g apiClient jobItem localItem k_done k_fail)) = []"
    using assms(1) by (simp add: script_runs run_simps machine_simps)
  from exec_stuck[OF this, of c cs] assms(2) Cons show ?thesis by simp
qed

text \<open>
  The example job item, whose first slot has an identity and a tag: its image sub-step ends
  with the uncaught error, and the environment has no operation to complete.
\<close>

theorem image_slot_failure_ends_images_witness:
  "global_item no_globals = None \<and>
   exec [] (start (getImages no_globals example_api example_job example_local skip skip)) =
     Some (start (getImages no_globals example_api example_job example_local skip skip)) \<and>
   snapshot (start (getImages no_globals example_api example_job example_local skip skip)) =
     ([Pending], [Uncaught (ReferenceError ''item'')], []) \<and>
   exec [(0, R_unit)]
     (start (getImages no_globals example_api example_job example_local skip skip)) = None"
proof -
  have g: "global_item no_globals = None" by (simp add: no_globals_def)
  have e: "exec [] (start (getImages no_globals example_api example_job example_local skip skip)) =
     Some (start (getImages no_globals example_api example_job example_local skip skip))" by simp
  have n: "exec [(0, R_unit)]
     (start (getImages no_globals example_api example_job example_local skip skip)) = None"
  proof (cases "exec [(0, R_unit)]
     (start (getImages no_globals example_api example_job example_local skip skip))")
    case None then show ?thesis .
  next
    case (Some m)
    from image_slot_failure_ends_images[OF g Some] show ?thesis by simp
  qed
  from image_slot_failure_ends_images[OF g e] g e n show ?thesis by blast
qed

text \<open>
  What the code after the faulting line does once \<open>item\<close> is bound to the job item. The
  failure callback of a download is \<open>getOnFail(deferred)\<close> (line 324), which rejects the
  deferred of the image sub-step instead of going on to the next slot: a failed download of
  slot 0 of the example job item rejects the sub-step (deferred number 0), and the album
  slot, which has an identity and a tag, is never looked at.
\<close>

lemma image_failure_rejects_images:
  "map_option snapshot
     (exec [(0, R_unit), (0, R_flag False), (0, R_fail)]
        (start (getImages (no_globals\<lparr>global_item := Some example_job\<rparr>) example_api example_job
                  example_local skip skip))) =
   Some ([Rejected, Rejected],
         [Log ''Begin downloadImage'', Call Require, Completed Require R_unit,
          Call (LAM_hasImage ''server1'' ''i1'' ''tag0''),
          Completed (LAM_hasImage ''server1'' ''i1'' ''tag0'') (R_flag False),
          Call (LAM_downloadImage ''/Items/i1/Images'' ''server1'' ''i1'' ''tag0''),
          Completed (LAM_downloadImage ''/Items/i1/Images'' ''server1'' ''i1'' ''tag0'') R_fail,
          Settled 1 Rejected, Settled 0 Rejected],
         [])"
  by (simp add: image_slot_def example_job_def example_api_def example_local_def no_globals_def
        script_runs run_simps machine_simps api_runs)

text \<open>
  The lookup \<open>hasImage\<close> has no failure callback at all (line 334): when it fails, the
  deferred of the download and that of the image sub-step stay pending with nothing in
  flight.
\<close>

lemma image_lookup_failure_stalls:
  "map_option snapshot
     (exec [(0, R_unit), (0, R_fail)]
        (start (getImages (no_globals\<lparr>global_item := Some example_job\<rparr>) example_api example_job
                  example_local skip skip))) =
   Some ([Pending, Pending],
         [Log ''Begin downloadImage'', Call Require, Completed Require R_unit,
          Call (LAM_hasImage ''server1'' ''i1'' ''tag0''),
          Completed (LAM_hasImage ''server1'' ''i1'' ''tag0'') R_fail],
         [])"
  by (simp add: image_slot_def example_job_def example_api_def example_local_def no_globals_def
        script_runs run_simps machine_simps api_runs)

text \<open>
  In general, with \<open>item\<close> bound: for every slot \<open>index\<close> that has an identity and a tag,
  started in any state in which the deferred \<open>d\<close> of the image sub-step is pending, when the
  image is not present locally and its download fails, \<open>d\<close> is rejected, its failure
  callback runs, and nothing of \<open>getNextImage\<close> for a later slot has run or is in flight.
\<close>

lemma image_download_failure_propagates:
  assumes "global_item g = Some item" and "index < 4"
    and "image_slot index (Item item) = (Some itemId, imageType, Some imageTag)"
    and "itemId \<noteq> []" and "imageTag \<noteq> []"
    and "did d < length (statuses s)" and "statuses s ! did d = Pending"
  shows "exec [(0, R_unit), (0, R_flag False), (0, R_fail)]
           (turn (getNextImage g index apiClient localItem d) s []) =
         Some (turn (on_fail d)
                 (s\<lparr>statuses := (statuses s @ [Rejected])[did d := Rejected],
                    trace := trace s @
                      [Log ''Begin downloadImage'', Call Require, Completed Require R_unit,
                       Call (LAM_hasImage (ServerId (Item item)) itemId imageTag),
                       Completed (LAM_hasImage (ServerId (Item item)) itemId imageTag)
                         (R_flag False),
                       Call (LAM_downloadImage
                               (getImageUrl apiClient itemId
                                  [(''Tag'', imageTag), (''ImageType'', imageType),
                                   (''api_key'', accessToken apiClient)])
                               (ServerId (Item item)) itemId imageTag),
                       Completed (LAM_downloadImage
                               (getImageUrl apiClient itemId
                                  [(''Tag'', imageTag), (''ImageType'', imageType),
                                   (''api_key'', accessToken apiClient)])
                               (ServerId (Item item)) itemId imageTag) R_fail,
                       Settled (length (statuses s)) Rejected,
                       Settled (did d) Rejected]\<rparr>) [])"
  using assms
  by (subst getNextImage.simps)
     (simp add: script_runs run_simps machine_simps api_runs nth_append
        list_update_append nth_list_update)

text \<open>
  C6: for every job item the four image slots are evaluated in the fixed order item
  primary, series primary, series thumb, album primary; the first slot without an
  identity ends the image processing and a slot with an identity but no tag is skipped.
  The slot table of the code says so for the example job item (slots 0 and 3 have an
  identity and a tag, slots 1 and 2 an identity and no tag), but the script on its own
  evaluates no slot of it: the image sub-step throws at once, with nothing looked up.
\<close>

theorem image_slots_never_evaluated:
  "map (\<lambda>index. image_slot index (Item example_job)) [0, 1, 2, 3] =
     [(Some ''i1'', ''Primary'', Some ''tag0''), (Some ''series1'', ''Primary'', None),
      (Some ''series1'', ''Thumb'', None), (Some ''album1'', ''Primary'', Some ''tag3'')] \<and>
   snapshot (start (getImages no_globals example_api example_job example_local skip skip)) =
     ([Pending], [Uncaught (ReferenceError ''item'')], [])"
  by (simp add: image_slot_def example_job_def no_globals_def script_runs run_simps machine_simps)

text \<open>
  What the code after the faulting line does once \<open>item\<close> is bound to the job item: slot 0
  is found present, slots 1 and 2 are skipped for want of a tag, slot 3 is downloaded, and
  the image sub-step is resolved.
\<close>

lemma image_slots_when_item_is_bound:
  "map_option snapshot
     (exec [(0, R_unit), (0, R_flag True), (0, R_unit), (0, R_flag False), (0, R_unit)]
        (start (getImages (no_globals\<lparr>global_item := Some example_job\<rparr>) example_api example_job
                  example_local skip skip))) =
   Some ([Resolved, Resolved, Resolved],
         [Log ''Begin downloadImage'', Call Require, Completed Require R_unit,
          Call (LAM_hasImage ''server1'' ''i1'' ''tag0''),
          Completed (LAM_hasImage ''server1'' ''i1'' ''tag0'') (R_flag True),
          Settled 1 Resolved,
          Log ''Begin downloadImage'', Call Require, Completed Require R_unit,
          Call (LAM_hasImage ''server1'' ''album1'' ''tag3''),
          Completed (LAM_hasImage ''server1'' ''album1'' ''tag3'') (R_flag False),
          Call (LAM_downloadImage ''/Items/album1/Images'' ''server1'' ''album1'' ''tag3''),
          Completed (LAM_downloadImage ''/Items/album1/Images'' ''server1'' ''album1'' ''tag3'')
            R_unit,
          Settled 2 Resolved, Settled 0 Resolved],
         [])"
  by (simp add: image_slot_def example_job_def example_api_def example_local_def no_globals_def
        script_runs run_simps machine_simps api_runs eval_nat_numeral)

text \<open>
  What the per-item iteration does swallow: when the local item of the first job item
  cannot be created, \<open>getNewItem\<close> is rejected (deferred 1) and \<open>getNextNewItem\<close> starts the
  second job item (deferred 2).
\<close>

lemma fetch_swallows_create_failure:
  "map_option (\<lambda>m. (statuses (m_store m), calls (trace (m_store m)), map fst (m_pending m)))
     (exec [(0, R_jobs [job1, job2]), (0, R_unit), (0, R_fail)]
        (start (getNewMedia g apiClient serverInfo skip skip))) =
   Some ([Pending, Rejected, Pending],
         [Api_getReadySyncItems (deviceId apiClient), Require,
          LAM_createLocalItem (Item job1) serverInfo (OriginalFileName job1), Require],
         [Require])"
  by (simp add: script_runs run_simps machine_simps api_runs)

text \<open>
  C7: the fetch phase never fails as a whole and completes successfully for every job
  list. The code does not complete it: for every job list whose first item is created and
  downloaded successfully, the image sub-step of that item throws (no global \<open>item\<close>), so
  the deferred of \<open>getNewMedia\<close> (number 0) stays pending with nothing in flight, and no
  further step of the run is possible: neither callback of \<open>getNextNewItem\<close> ever runs,
  the next job item is never started and the fetch phase neither resolves nor rejects.
  The six replies are the job list, \<open>require\<close>, the created local item, \<open>require\<close>, the
  downloaded file and the update of the local item.
\<close>

theorem fetch_stalls_after_first_download:
  assumes "global_item g = None"
  shows "\<exists>m. exec [(0, R_jobs (jobItem # rest)), (0, R_unit), (0, R_local localItem),
                   (0, R_unit), (0, R_unit), (0, R_unit)]
               (start (getNewMedia g apiClient serverInfo skip skip)) = Some m \<and>
             statuses (m_store m) ! 0 = Pending \<and>
             m_pending m = [] \<and>
             last (trace (m_store m)) = Uncaught (ReferenceError ''item'') \<and>
             (\<forall>c cs. exec (c # cs) m = None)"
proof -
  have "\<exists>m. exec [(0, R_jobs (jobItem # rest)), (0, R_unit), (0, R_local localItem),
                   (0, R_unit), (0, R_unit), (0, R_unit)]
               (start (getNewMedia g apiClient serverInfo skip skip)) = Some m \<and>
             statuses (m_store m) ! 0 = Pending \<and>
             m_pending m = [] \<and>
             last (trace (m_store m)) = Uncaught (ReferenceError ''item'')"
    using assms
    by (simp add: script_runs run_simps machine_simps api_runs)
  then show ?thesis using exec_stuck by blast
qed

theorem fetch_stalls_after_first_download_witness:
  "global_item no_globals = None \<and>
   (\<exists>m. exec [(0, R_jobs [example_job, example_job]), (0, R_unit), (0, R_local example_local),
               (0, R_unit), (0, R_unit), (0, R_unit)]
           (start (getNewMedia no_globals example_api example_server skip skip)) = Some m \<and>
         statuses (m_store m) ! 0 = Pending \<and>
         m_pending m = [] \<and>
         last (trace (m_store m)) = Uncaught (ReferenceError ''item'') \<and>
         (\<forall>c cs. exec (c # cs) m = None))"
proof -
  have h: "global_item no_globals = None" by (simp add: no_globals_def)
  from fetch_stalls_after_first_download[OF h, of example_job "[example_job]" example_local
        example_api example_server] h
  show ?thesis by simp
qed

text \<open>
  A run of \<open>getSubtitles\<close> on a job item with media sources has at most one step, the
  callback of \<open>require\<close>, which throws.
\<close>

lemma getSubtitles_stays_pending:
  assumes "MediaSources (Item jobItem) \<noteq> []" "global_deferred g = None" "global_file g = None"
    and "exec script (start (getSubtitles g apiClient jobItem localItem k_done k_fail)) = Some m"
  shows "statuses (m_store m) = [Pending]"
proof (cases script)
  case Nil
  with assms(4) show ?thesis
    by (auto simp add: script_runs run_simps machine_simps)
next
  case (Cons c cs)
  from assms(4) obtain m1 where
    c1: "complete (fst c) (snd c)
           (start (getSubtitles g apiClient jobItem localItem k_done k_fail)) = Some m1"
    and c2: "exec cs m1 = Some m"
    by (auto simp: Cons exec_Cons split: option.splits)
  from c1 assms(1-3) have p: "m_pending m1 = [] \<and> statuses (m_store m1) = [Pending]"
    by (auto simp add: getSubtitles_def[THEN run_eq] getNextSubtitle_faults run_simps
          machine_simps split: if_splits list.splits)
  with c2 have "cs = []" using exec_stuck[of m1] by (cases cs) auto
  with c2 p show ?thesis by simp
qed

text \<open>
  C10: for every job item whose media source list is not empty, the promise of
  \<open>getSubtitles\<close> can never be resolved or rejected, because \<open>getNextSubtitle\<close> reads
  \<open>deferred\<close> in its base case and \<open>file\<close> in its recursive case and neither is bound
  in its scope; so the pipeline of the item never reaches the report of the completed
  transfer. With no global \<open>deferred\<close> and \<open>file\<close>: \<open>getNextSubtitle\<close> throws for every list
  of files and every index, in the base case on \<open>deferred\<close> and otherwise on \<open>file\<close>; in
  every run of \<open>getSubtitles\<close>, whatever its callbacks, its deferred is pending; and in
  every run of \<open>getNewItem\<close> for the item no
  \<open>apiClient.reportSyncJobItemTransferred\<close> is ever started.
\<close>

theorem subtitles_promise_never_settles:
  assumes "MediaSources (Item jobItem) \<noteq> []" "global_deferred g = None" "global_file g = None"
  shows "(\<forall>files index mediaSource s.
            run (getNextSubtitle g files index apiClient jobItem localItem mediaSource) s =
              (s, [], Some (ReferenceError
                              (if index \<ge> length files then ''deferred'' else ''file'')))) \<and>
         (\<forall>script m.
            exec script (start (getSubtitles g apiClient jobItem localItem k_done k_fail)) = Some m
            \<longrightarrow> statuses (m_store m) = [Pending]) \<and>
         (\<forall>script m.
            exec script (start (getNewItem g jobItem apiClient serverInfo skip skip)) = Some m
            \<longrightarrow> (\<forall>x. Call (Api_reportSyncJobItemTransferred x) \<notin> set (trace (m_store m))))"
proof (intro conjI allI impI)
  fix files index mediaSource s
  show "run (getNextSubtitle g files index apiClient jobItem localItem mediaSource) s =
          (s, [], Some (ReferenceError (if index \<ge> length files then ''deferred'' else ''file'')))"
    by (rule getNextSubtitle_faults[OF assms(2,3)])
next
  fix script m
  assume "exec script (start (getSubtitles g apiClient jobItem localItem k_done k_fail)) = Some m"
  with assms show "statuses (m_store m) = [Pending]" by (rule getSubtitles_stays_pending)
next
  fix script m x
  assume e: "exec script (start (getNewItem g jobItem apiClient serverInfo skip skip)) = Some m"
  from safe_never[OF safe_getNewItem_stalls[OF assms] _ _ e]
  have "\<forall>ev\<in>set (trace (m_store m)). \<not> forbidden reports_transfer ev" by simp
  then show "Call (Api_reportSyncJobItemTransferred x) \<notin> set (trace (m_store m))"
    by (auto simp: reports_transfer_def)
qed

theorem subtitles_promise_never_settles_witness:
  "MediaSources (Item example_job) \<noteq> [] \<and> global_deferred no_globals = None \<and>
   global_file no_globals = None \<and>
   run (getNextSubtitle no_globals [] 0 example_api example_job example_local
          \<lparr>MediaStreams = []\<rparr>) \<lparr>statuses = [Pending], trace = []\<rparr> =
     (\<lparr>statuses = [Pending], trace = []\<rparr>, [], Some (ReferenceError ''deferred'')) \<and>
   (\<exists>m. exec [(0, R_unit)]
           (start (getSubtitles no_globals example_api example_job example_local skip skip)) =
           Some m \<and>
         statuses (m_store m) = [Pending] \<and> m_pending m = [] \<and>
         last (trace (m_store m)) = Uncaught (ReferenceError ''deferred''))"
proof -
  have h1: "MediaSources (Item example_job) \<noteq> []" by (simp add: example_job_def)
  have h2: "global_deferred no_globals = None" and h3: "global_file no_globals = None"
    by (simp_all add: no_globals_def)
  note t = subtitles_promise_never_settles[OF h1 h2 h3, of example_api example_local skip skip
             example_server]
  have r: "run (getNextSubtitle no_globals [] 0 example_api example_job example_local
          \<lparr>MediaStreams = []\<rparr>) \<lparr>statuses = [Pending], trace = []\<rparr> =
     (\<lparr>statuses = [Pending], trace = []\<rparr>, [], Some (ReferenceError ''deferred''))"
    using t by simp
  have "\<exists>m. exec [(0, R_unit)]
           (start (getSubtitles no_globals example_api example_job example_local skip skip)) =
           Some m \<and> m_pending m = [] \<and>
         last (trace (m_store m)) = Uncaught (ReferenceError ''deferred'')"
    by (simp add: example_job_def getNextSubtitle_faults[OF h2 h3] h2 h3
          script_runs run_simps machine_simps)
  then obtain m where
    e: "exec [(0, R_unit)]
           (start (getSubtitles no_globals example_api example_job example_local skip skip)) =
           Some m"
    and p: "m_pending m = []" "last (trace (m_store m)) = Uncaught (ReferenceError ''deferred'')"
    by blast
  from t e have "statuses (m_store m) = [Pending]" by blast
  with h1 h2 h3 r e p show ?thesis by blast
qed

end
